theory Spec2Isabelle
  imports Main "HOL-Library.Sublist"
begin

section \<open>Deadline reminders of \<^verbatim>\<open>app.py\<close>: the data model\<close>

text \<open>
  A \<^verbatim>\<open>datetime\<close> is naive local time; it is modelled by the number of microseconds
  since an arbitrary origin (the resolution of Python's \<^verbatim>\<open>datetime\<close>), and a
  \<^verbatim>\<open>timedelta\<close> by a number of microseconds. The scan only adds one day or one hour to
  the reading of the clock, which stays far below \<^verbatim>\<open>datetime.max\<close>.
\<close>

type_synonym datetime = int

definition timedelta :: "int \<Rightarrow> int \<Rightarrow> int \<Rightarrow> int" where
  \<comment> \<open>\<^verbatim>\<open>timedelta(days=d, hours=h, minutes=m)\<close>\<close>
  "timedelta days hours minutes = ((days * 24 + hours) * 60 + minutes) * 60000000"

text \<open>
  The columns of \<^verbatim>\<open>class Task(db.Model)\<close>. A column that is not declared
  \<^verbatim>\<open>nullable=False\<close> may hold \<^verbatim>\<open>NULL\<close>, which is \<open>None\<close> here.
\<close>

record task =
  task_id :: int
  title :: string
  description :: "string option"
  due_date :: datetime
  status :: "string option"
  notify_email :: "string option"
  notified_1day :: "bool option"
  notified_1hour :: "bool option"

text \<open>
  The module-level names the job reads: the credentials and the fallback recipient taken
  from the environment, and Python's rendering of a \<^verbatim>\<open>datetime\<close> as text
  (\<^verbatim>\<open>str(task.due_date)\<close>), which is a parameter of the model.
\<close>

record config =
  EMAIL_USER :: string
  EMAIL_PASS :: string
  DEFAULT_TO :: string
  str_datetime :: "datetime \<Rightarrow> string"

text \<open>The two reminders: the block of \<^verbatim>\<open>check_deadlines\<close> written for each.\<close>

datatype kind = Day | Hour

text \<open>
  What one run of the job meets outside the program: the reading of the clock, whether
  each of the two queries raises, whether the SMTP exchange of the \<open>n\<close>-th call of
  \<^verbatim>\<open>send_email\<close> of the run goes through, whether the \<^verbatim>\<open>socketio.emit\<close> that
  follows that call goes through, and whether the final commit raises.
\<close>

record env =
  clock :: datetime
  query_day_fails :: bool
  query_hour_fails :: bool
  smtp_ok :: "nat \<Rightarrow> bool"
  emit_ok :: "nat \<Rightarrow> bool"
  commit_fails :: bool

text \<open>
  The observable effects of a run, in the order they happen: the message printed when a
  query raises, the message printed for a task without recipient, each call of
  \<^verbatim>\<open>send_email\<close> made by the loop of a kind for a task (with its arguments and the
  value it returned), each \<^verbatim>\<open>socketio.emit\<close> (title, due, when, and whether it went
  through), and the message printed when the commit raises.
\<close>

datatype event =
    Query_failed kind
  | No_recipient int
  | Send_email kind int string string string bool
  | Socket_emit string string string bool
  | Commit_failed

datatype exn = DBError

datatype py_value = PyNone

section \<open>The operations\<close>

definition notify_recipient :: "config \<Rightarrow> task \<Rightarrow> string" where
  \<comment> \<open>\<^verbatim>\<open>self.notify_email or DEFAULT_TO\<close>: \<^verbatim>\<open>None\<close> and the empty string are falsy\<close>
  "notify_recipient cfg t =
     (case notify_email t of
        None \<Rightarrow> DEFAULT_TO cfg
      | Some e \<Rightarrow> if e = [] then DEFAULT_TO cfg else e)"

definition send_email :: "config \<Rightarrow> bool \<Rightarrow> string \<Rightarrow> string \<Rightarrow> string \<Rightarrow> bool" where
  \<comment> \<open>\<open>exchange_ok\<close>: the \<^verbatim>\<open>try\<close> block (login and \<^verbatim>\<open>send_message\<close>) raises nothing\<close>
  "send_email cfg exchange_ok to_address subject body =
     (if EMAIL_USER cfg = [] \<or> EMAIL_PASS cfg = [] then False
      else if exchange_ok then True
      else False)"

fun threshold :: "kind \<Rightarrow> datetime \<Rightarrow> datetime" where
  "threshold Day now = now + timedelta 1 0 0"
| "threshold Hour now = now + timedelta 0 1 0"

fun flag :: "kind \<Rightarrow> task \<Rightarrow> bool option" where
  "flag Day t = notified_1day t"
| "flag Hour t = notified_1hour t"

fun set_flag :: "kind \<Rightarrow> task \<Rightarrow> task" where
  "set_flag Day t = t\<lparr>notified_1day := Some True\<rparr>"
| "set_flag Hour t = t\<lparr>notified_1hour := Some True\<rparr>"

definition due_filter :: "kind \<Rightarrow> datetime \<Rightarrow> datetime \<Rightarrow> task \<Rightarrow> bool" where
  \<comment> \<open>the four conditions of \<^verbatim>\<open>Task.query.filter\<close>; a comparison with \<^verbatim>\<open>NULL\<close> selects nothing\<close>
  "due_filter k thr now t =
     (status t = Some ''Pending'' \<and>
      due_date t \<le> thr \<and>
      due_date t > now \<and>
      flag k t = Some False)"

definition query_due :: "bool \<Rightarrow> kind \<Rightarrow> datetime \<Rightarrow> datetime \<Rightarrow> task list \<Rightarrow> exn + task list" where
  \<comment> \<open>\<^verbatim>\<open>Task.query.filter(...).all()\<close> on the rows in the order the store lists them\<close>
  "query_due fails k thr now rows =
     (if fails then Inl DBError else Inr (filter (due_filter k thr now) rows))"

text \<open>
  The state of a run: the rows as the session sees them (the objects of the identity map,
  with the flags the run has set so far), the number of calls of \<^verbatim>\<open>send_email\<close>
  made so far, and the effects so far.
\<close>

record scan_state =
  session :: "task list"
  calls :: nat
  trace :: "event list"

definition mark_notified :: "kind \<Rightarrow> int \<Rightarrow> task list \<Rightarrow> task list" where
  \<comment> \<open>\<^verbatim>\<open>task.notified_1day = True; db.session.add(task)\<close>: the row of that primary key\<close>
  "mark_notified k i rows = map (\<lambda>r. if task_id r = i then set_flag k r else r) rows"

fun subject_of :: "kind \<Rightarrow> task \<Rightarrow> string" where
  "subject_of Day t = ''Reminder: '' @ [CHR 0x27] @ title t @ [CHR 0x27] @ '' is due in ~1 day''"
| "subject_of Hour t = ''Urgent: '' @ [CHR 0x27] @ title t @ [CHR 0x27] @ '' is due in ~1 hour''"

definition body_of :: "config \<Rightarrow> task \<Rightarrow> string" where
  "body_of cfg t =
     ''Task: '' @ title t @ [CHR 0x0A] @ ''Due: '' @ str_datetime cfg (due_date t) @
     [CHR 0x0A, CHR 0x0A] @ (case description t of None \<Rightarrow> [] | Some d \<Rightarrow> d)"

fun when_of :: "kind \<Rightarrow> string" where
  "when_of Day = ''1 day''"
| "when_of Hour = ''1 hour''"

definition remind :: "config \<Rightarrow> env \<Rightarrow> kind \<Rightarrow> task \<Rightarrow> scan_state \<Rightarrow> scan_state" where
  \<comment> \<open>the body of \<^verbatim>\<open>for task in tasks_day\<close> and of \<^verbatim>\<open>for task in tasks_hour\<close>\<close>
  "remind cfg env k t s =
     (let recipient = notify_recipient cfg t in
      if recipient = [] then s\<lparr>trace := trace s @ [No_recipient (task_id t)]\<rparr>
      else
        let subject = subject_of k t;
            body = body_of cfg t;
            n = calls s;
            sent = send_email cfg (smtp_ok env n) recipient subject body;
            s1 = s\<lparr>calls := n + 1,
                   trace := trace s @ [Send_email k (task_id t) recipient subject body sent]\<rparr>
        in if sent
           then s1\<lparr>session := mark_notified k (task_id t) (session s1),
                   trace := trace s1 @
                     [Socket_emit (title t) (str_datetime cfg (due_date t)) (when_of k) (emit_ok env n)]\<rparr>
           else s1)"

fun send_reminders :: "config \<Rightarrow> env \<Rightarrow> kind \<Rightarrow> task list \<Rightarrow> scan_state \<Rightarrow> scan_state" where
  "send_reminders cfg env k [] s = s"
| "send_reminders cfg env k (t # ts) s = send_reminders cfg env k ts (remind cfg env k t s)"

fun query_fails :: "env \<Rightarrow> kind \<Rightarrow> bool" where
  "query_fails env Day = query_day_fails env"
| "query_fails env Hour = query_hour_fails env"

definition reminders_of :: "config \<Rightarrow> env \<Rightarrow> kind \<Rightarrow> scan_state \<Rightarrow> scan_state" where
  \<comment> \<open>one block: the query inside \<^verbatim>\<open>try\<close>, the empty list when it raises, then the loop\<close>
  "reminders_of cfg env k s =
     (let now = clock env in
      case query_due (query_fails env k) k (threshold k now) now (session s) of
        Inl e \<Rightarrow> send_reminders cfg env k [] (s\<lparr>trace := trace s @ [Query_failed k]\<rparr>)
      | Inr tasks \<Rightarrow> send_reminders cfg env k tasks s)"

text \<open>
  The result of a run: the value the function returns, the rows of the store after the
  commit or the rollback, the rows as the session held them just before the commit (the
  staged updates), and the effects.
\<close>

record scan_result =
  returned :: py_value
  stored :: "task list"
  staged :: "task list"
  events :: "event list"

definition check_deadlines :: "config \<Rightarrow> env \<Rightarrow> task list \<Rightarrow> scan_result" where
  "check_deadlines cfg env db =
     (let s0 = \<lparr>session = db, calls = 0, trace = []\<rparr>;
          s1 = reminders_of cfg env Day s0;
          s2 = reminders_of cfg env Hour s1
      in if commit_fails env
         then \<lparr>returned = PyNone, stored = db, staged = session s2,
               events = trace s2 @ [Commit_failed]\<rparr>
         else \<lparr>returned = PyNone, stored = session s2, staged = session s2,
               events = trace s2\<rparr>)"

text \<open>
  The scheduler runs the job again and again (\<^verbatim>\<open>trigger='interval'\<close>); each run
  starts from the rows the previous one left in the store.
\<close>

fun run_scans :: "config \<Rightarrow> env list \<Rightarrow> task list \<Rightarrow> task list \<times> event list" where
  "run_scans cfg [] db = (db, [])"
| "run_scans cfg (env # envs) db =
     (let r = check_deadlines cfg env db;
          (db', evs) = run_scans cfg envs (stored r)
      in (db', events r @ evs))"

section \<open>Vocabulary of the properties\<close>

text \<open>
  Calls of \<^verbatim>\<open>send_email\<close> in a trace: the calls made for a task by the loop of a kind,
  those among them that returned \<^verbatim>\<open>True\<close>, and the number of successful calls of a
  kind.
\<close>

fun is_send :: "kind \<Rightarrow> int \<Rightarrow> event \<Rightarrow> bool" where
  "is_send k i (Send_email k' j _ _ _ _) = (k' = k \<and> j = i)"
| "is_send _ _ _ = False"

fun is_sent_ok :: "kind \<Rightarrow> int \<Rightarrow> event \<Rightarrow> bool" where
  "is_sent_ok k i (Send_email k' j _ _ _ sent) = (k' = k \<and> j = i \<and> sent)"
| "is_sent_ok _ _ _ = False"

fun is_sent_kind :: "kind \<Rightarrow> event \<Rightarrow> bool" where
  "is_sent_kind k (Send_email k' _ _ _ _ sent) = (k' = k \<and> sent)"
| "is_sent_kind _ _ = False"

definition sent_count :: "kind \<Rightarrow> event list \<Rightarrow> nat" where
  "sent_count k evs = length (filter (is_sent_kind k) evs)"

text \<open>The events a loop of a kind can produce.\<close>

fun by_loop :: "kind \<Rightarrow> event \<Rightarrow> bool" where
  "by_loop k (Send_email k' _ _ _ _ _) = (k' = k)"
| "by_loop k (Query_failed _) = False"
| "by_loop k Commit_failed = False"
| "by_loop k _ = True"

text \<open>
  The frame of a run, row by row: every column but the two flags is as before, and a flag
  is as before or has gone from false to true.
\<close>

definition frame :: "task \<Rightarrow> task \<Rightarrow> bool" where
  "frame r r' =
     (task_id r' = task_id r \<and> title r' = title r \<and> description r' = description r \<and>
      due_date r' = due_date r \<and> status r' = status r \<and> notify_email r' = notify_email r \<and>
      (notified_1day r' = notified_1day r \<or>
         notified_1day r = Some False \<and> notified_1day r' = Some True) \<and>
      (notified_1hour r' = notified_1hour r \<or>
         notified_1hour r = Some False \<and> notified_1hour r' = Some True))"

text \<open>Two invariants of a run: a successful send has its flag set in the session, and a flag
  that differs from the store's has its successful send in the trace.\<close>

definition sent_flagged :: "scan_state \<Rightarrow> bool" where
  "sent_flagged s =
     (\<forall>e\<in>set (trace s). \<forall>r\<in>set (session s). \<forall>k.
        is_sent_ok k (task_id r) e \<longrightarrow> flag k r = Some True)"

definition changes_sent :: "task list \<Rightarrow> scan_state \<Rightarrow> bool" where
  "changes_sent db s =
     list_all2 (\<lambda>r r'. task_id r' = task_id r \<and>
        (\<forall>k. flag k r' \<noteq> flag k r \<longrightarrow> (\<exists>e\<in>set (trace s). is_sent_ok k (task_id r) e)))
       db (session s)"

text \<open>Whether the query of a kind, when it does not raise, returns a task.\<close>

definition selects :: "kind \<Rightarrow> datetime \<Rightarrow> task list \<Rightarrow> task \<Rightarrow> bool" where
  "selects k now rows t =
     (case query_due False k (threshold k now) now rows of
        Inl e \<Rightarrow> False
      | Inr tasks \<Rightarrow> t \<in> set tasks)"

text \<open>
  What the block of a kind reads of a row, and the call of \<^verbatim>\<open>send_email\<close> that the
  loop of a kind makes for a task (whatever it returns).
\<close>

definition view :: "kind \<Rightarrow> task \<Rightarrow> int \<times> string \<times> string option \<times> datetime \<times> string option \<times> string option \<times> bool option" where
  "view k r = (task_id r, title r, description r, due_date r, status r, notify_email r, flag k r)"

fun send_for :: "config \<Rightarrow> kind \<Rightarrow> task \<Rightarrow> event \<Rightarrow> bool" where
  "send_for cfg k t (Send_email k' j a b c sent) =
     (k' = k \<and> j = task_id t \<and> a = notify_recipient cfg t \<and> b = subject_of k t \<and> c = body_of cfg t)"
| "send_for cfg k t _ = False"

text \<open>The state of a run after its two blocks, just before the commit.\<close>

definition final_state :: "config \<Rightarrow> env \<Rightarrow> task list \<Rightarrow> scan_state" where
  "final_state cfg env db =
     reminders_of cfg env Hour (reminders_of cfg env Day \<lparr>session = db, calls = 0, trace = []\<rparr>)"

text \<open>
  The tasks a trace shows being handled, in order: an iteration of a loop either prints
  that its task has no recipient or calls \<^verbatim>\<open>send_email\<close> for it.
\<close>

fun handled :: "event \<Rightarrow> int list" where
  "handled (Send_email k i _ _ _ _) = [i]"
| "handled (No_recipient i) = [i]"
| "handled _ = []"

text \<open>Concrete data for the instances below.\<close>

definition demo_config :: config where
  "demo_config = \<lparr>EMAIL_USER = ''me@example.org'', EMAIL_PASS = ''secret'', DEFAULT_TO = [],
     str_datetime = (\<lambda>d. ''t'')\<rparr>"

definition demo_env :: "datetime \<Rightarrow> bool \<Rightarrow> bool \<Rightarrow> bool \<Rightarrow> env" where
  "demo_env now qd qh cf = \<lparr>clock = now, query_day_fails = qd, query_hour_fails = qh,
     smtp_ok = (\<lambda>n. True), emit_ok = (\<lambda>n. True), commit_fails = cf\<rparr>"

definition demo_task :: "int \<Rightarrow> datetime \<Rightarrow> string option \<Rightarrow> task" where
  "demo_task i due rcpt = \<lparr>task_id = i, title = ''A'', description = None, due_date = due,
     status = Some ''Pending'', notify_email = rcpt, notified_1day = Some False,
     notified_1hour = Some False\<rparr>"

lemmas demo_defs = demo_config_def demo_env_def demo_task_def

lemmas scan_defs = check_deadlines_def reminders_of_def query_due_def due_filter_def remind_def
  send_email_def notify_recipient_def mark_notified_def body_of_def timedelta_def Let_def

section \<open>One iteration, one loop, one block\<close>

lemma send_email_iff:
  "send_email cfg x a b c = (EMAIL_USER cfg \<noteq> [] \<and> EMAIL_PASS cfg \<noteq> [] \<and> x)"
  by (simp add: send_email_def)

lemma set_flag_fields [simp]:
  "task_id (set_flag k r) = task_id r" "title (set_flag k r) = title r"
  "description (set_flag k r) = description r" "due_date (set_flag k r) = due_date r"
  "status (set_flag k r) = status r" "notify_email (set_flag k r) = notify_email r"
  by (cases k; simp)+

lemma flag_set_flag [simp]: "flag k' (set_flag k r) = (if k' = k then Some True else flag k' r)"
  by (cases k; cases k'; simp)

lemma notify_recipient_set_flag [simp]: "notify_recipient cfg (set_flag k r) = notify_recipient cfg r"
  by (simp add: notify_recipient_def)

lemma frame_refl: "frame r r"
  by (simp add: frame_def)

lemma frame_trans: "frame a b \<Longrightarrow> frame b c \<Longrightarrow> frame a c"
  unfolding frame_def by auto

lemma frame_set_flag: "flag k r = Some False \<Longrightarrow> frame r (set_flag k r)"
  by (cases k) (simp_all add: frame_def)

lemma frame_flag: "frame r r' \<Longrightarrow> flag k r' = flag k r \<or> flag k r = Some False \<and> flag k r' = Some True"
  by (cases k) (auto simp add: frame_def)

lemma map_task_id_mark [simp]: "map task_id (mark_notified k i rows) = map task_id rows"
  by (induction rows) (simp_all add: mark_notified_def)

lemma length_mark [simp]: "length (mark_notified k i rows) = length rows"
  by (simp add: mark_notified_def)

text \<open>What one iteration does to the session and to the trace.\<close>

lemma session_remind:
  "session (remind cfg env k t s) =
     (if notify_recipient cfg t \<noteq> [] \<and> EMAIL_USER cfg \<noteq> [] \<and> EMAIL_PASS cfg \<noteq> [] \<and> smtp_ok env (calls s)
      then mark_notified k (task_id t) (session s) else session s)"
  by (simp add: remind_def Let_def send_email_iff)

lemma trace_remind:
  "trace (remind cfg env k t s) = trace s @
     (if notify_recipient cfg t = [] then [No_recipient (task_id t)]
      else if EMAIL_USER cfg \<noteq> [] \<and> EMAIL_PASS cfg \<noteq> [] \<and> smtp_ok env (calls s)
      then [Send_email k (task_id t) (notify_recipient cfg t) (subject_of k t) (body_of cfg t) True,
            Socket_emit (title t) (str_datetime cfg (due_date t)) (when_of k) (emit_ok env (calls s))]
      else [Send_email k (task_id t) (notify_recipient cfg t) (subject_of k t) (body_of cfg t) False])"
  by (simp add: remind_def Let_def send_email_iff)

lemma ids_send_reminders [simp]:
  "map task_id (session (send_reminders cfg env k ts s)) = map task_id (session s)"
  by (induction ts arbitrary: s) (simp_all add: session_remind)

lemma list_all2_frame_refl: "list_all2 frame rows rows"
  by (simp add: list_all2_refl frame_refl)

lemma list_all2_frame_trans:
  "list_all2 frame a b \<Longrightarrow> list_all2 frame b c \<Longrightarrow> list_all2 frame a c"
  using list_all2_trans[of frame frame frame a b c] frame_trans by blast

lemma frame_mark:
  assumes "\<forall>r\<in>set rows. task_id r = i \<longrightarrow> flag k r = Some False"
  shows "list_all2 frame rows (mark_notified k i rows)"
  using assms
  by (induction rows) (simp_all add: mark_notified_def frame_set_flag frame_refl)

lemma frame_remind:
  assumes "\<forall>r\<in>set (session s). task_id r = task_id t \<longrightarrow> flag k r = Some False"
  shows "list_all2 frame (session s) (session (remind cfg env k t s))"
  using assms by (simp add: session_remind frame_mark list_all2_frame_refl)

lemma mark_other:
  "r' \<in> set (mark_notified k i rows) \<Longrightarrow> task_id r' \<noteq> i \<Longrightarrow> r' \<in> set rows"
  by (auto simp add: mark_notified_def split: if_splits)

lemma remind_other:
  "r' \<in> set (session (remind cfg env k t s)) \<Longrightarrow> task_id r' \<noteq> task_id t \<Longrightarrow> r' \<in> set (session s)"
  by (auto simp add: session_remind dest: mark_other split: if_splits)

lemma frame_send_reminders:
  assumes "distinct (map task_id ts)"
    and "\<forall>t\<in>set ts. \<forall>r\<in>set (session s). task_id r = task_id t \<longrightarrow> flag k r = Some False"
  shows "list_all2 frame (session s) (session (send_reminders cfg env k ts s))"
  using assms
proof (induction ts arbitrary: s)
  case Nil
  show ?case by (simp add: list_all2_frame_refl)
next
  case (Cons t ts)
  have step: "list_all2 frame (session s) (session (remind cfg env k t s))"
    using Cons.prems(2) by (intro frame_remind) simp
  have "\<forall>u\<in>set ts. \<forall>r\<in>set (session (remind cfg env k t s)).
          task_id r = task_id u \<longrightarrow> flag k r = Some False"
  proof (intro ballI impI)
    fix u r assume u: "u \<in> set ts" and r: "r \<in> set (session (remind cfg env k t s))"
      and eq: "task_id r = task_id u"
    from Cons.prems(1) have "task_id t \<notin> set (map task_id ts)" by simp
    moreover from u have "task_id u \<in> set (map task_id ts)" by simp
    ultimately have "task_id u \<noteq> task_id t" by metis
    with r eq have "r \<in> set (session s)" by (auto dest: remind_other)
    with Cons.prems(2) u eq show "flag k r = Some False" by simp
  qed
  moreover from Cons.prems(1) have "distinct (map task_id ts)" by simp
  ultimately have "list_all2 frame (session (remind cfg env k t s))
      (session (send_reminders cfg env k ts (remind cfg env k t s)))"
    using Cons.IH by blast
  with step show ?case by (simp add: list_all2_frame_trans)
qed

lemma frame_ids: "list_all2 frame a b \<Longrightarrow> map task_id b = map task_id a"
  by (induction rule: list_all2_induct) (simp_all add: frame_def)

lemma distinct_ids_unique:
  "distinct (map task_id rows) \<Longrightarrow> r \<in> set rows \<Longrightarrow> t \<in> set rows \<Longrightarrow> task_id r = task_id t \<Longrightarrow> r = t"
  by (meson distinct_map inj_on_def)

lemma frame_reminders_of:
  assumes "distinct (map task_id (session s))"
  shows "list_all2 frame (session s) (session (reminders_of cfg env k s))"
proof (cases "query_fails env k")
  case True
  then show ?thesis by (simp add: reminders_of_def query_due_def list_all2_frame_refl)
next
  case False
  let ?ts = "filter (due_filter k (threshold k (clock env)) (clock env)) (session s)"
  have d: "distinct (map task_id ?ts)" using assms by (rule distinct_map_filter)
  have "\<forall>t\<in>set ?ts. \<forall>r\<in>set (session s). task_id r = task_id t \<longrightarrow> flag k r = Some False"
  proof (intro ballI impI)
    fix t r assume t: "t \<in> set ?ts" and r: "r \<in> set (session s)" and eq: "task_id r = task_id t"
    then have "r = t" using assms by (auto intro: distinct_ids_unique)
    with t show "flag k r = Some False" by (simp add: due_filter_def)
  qed
  with d have "list_all2 frame (session s) (session (send_reminders cfg env k ?ts s))"
    by (rule frame_send_reminders)
  with False show ?thesis by (simp add: reminders_of_def query_due_def Let_def)
qed

lemma ids_reminders_of [simp]:
  "map task_id (session (reminders_of cfg env k s)) = map task_id (session s)"
  by (simp add: reminders_of_def query_due_def Let_def)

lemma frame_scan:
  assumes "distinct (map task_id db)"
  shows "list_all2 frame db
     (session (reminders_of cfg env Hour (reminders_of cfg env Day \<lparr>session = db, calls = 0, trace = []\<rparr>)))"
proof -
  let ?s0 = "\<lparr>session = db, calls = 0, trace = []\<rparr>"
  let ?s1 = "reminders_of cfg env Day ?s0"
  have a: "list_all2 frame (session ?s0) (session ?s1)"
    using assms by (intro frame_reminders_of) simp
  have "distinct (map task_id (session ?s1))" using assms by simp
  then have "list_all2 frame (session ?s1) (session (reminders_of cfg env Hour ?s1))"
    by (rule frame_reminders_of)
  with a show ?thesis by (auto dest: list_all2_frame_trans)
qed

lemma trace_send_reminders:
  "\<exists>evs. trace (send_reminders cfg env k ts s) = trace s @ evs \<and> (\<forall>e\<in>set evs. by_loop k e)"
proof (induction ts arbitrary: s)
  case Nil
  show ?case by simp
next
  case (Cons t ts)
  obtain e1 where e1: "trace (remind cfg env k t s) = trace s @ e1" "\<forall>e\<in>set e1. by_loop k e"
    by (simp add: trace_remind)
  from Cons.IH[of "remind cfg env k t s"] obtain e2 where
    e2: "trace (send_reminders cfg env k ts (remind cfg env k t s)) = trace (remind cfg env k t s) @ e2"
      "\<forall>e\<in>set e2. by_loop k e" by blast
  have "trace (send_reminders cfg env k (t # ts) s) = trace s @ (e1 @ e2)"
    using e1(1) e2(1) by simp
  moreover have "\<forall>e\<in>set (e1 @ e2). by_loop k e" using e1(2) e2(2) by auto
  ultimately show ?case by blast
qed

lemma trace_reminders_of:
  "\<exists>evs. trace (reminders_of cfg env k s) =
      trace s @ (if query_fails env k then [Query_failed k] else []) @ evs \<and>
      (\<forall>e\<in>set evs. by_loop k e)"
  using trace_send_reminders[of cfg env k _ s]
  by (simp add: reminders_of_def query_due_def Let_def)

lemma count_sends_remind:
  "length (filter (is_send k' i) (trace (remind cfg env k t s))) =
   length (filter (is_send k' i) (trace s)) +
     (if k' = k \<and> task_id t = i \<and> notify_recipient cfg t \<noteq> [] then 1 else 0)"
  by (simp add: trace_remind)

lemma count_sends_loop:
  "length (filter (is_send k' i) (trace (send_reminders cfg env k ts s))) =
   length (filter (is_send k' i) (trace s)) +
     (if k' = k then length (filter (\<lambda>t. task_id t = i \<and> notify_recipient cfg t \<noteq> []) ts) else 0)"
  by (induction ts arbitrary: s) (simp_all add: count_sends_remind)

lemma sent_event_loop:
  assumes "t \<in> set ts" and "notify_recipient cfg t \<noteq> []"
  shows "\<exists>sent. Send_email k (task_id t) (notify_recipient cfg t) (subject_of k t) (body_of cfg t) sent
           \<in> set (trace (send_reminders cfg env k ts s))"
  using assms(1)
proof (induction ts arbitrary: s)
  case Nil
  then show ?case by simp
next
  case (Cons u ts)
  show ?case
  proof (cases "t = u")
    case True
    have "\<exists>sent. Send_email k (task_id t) (notify_recipient cfg t) (subject_of k t) (body_of cfg t) sent
        \<in> set (trace (remind cfg env k u s))"
      using assms(2) True by (auto simp add: trace_remind)
    moreover obtain evs where "trace (send_reminders cfg env k ts (remind cfg env k u s)) =
        trace (remind cfg env k u s) @ evs"
      using trace_send_reminders by blast
    ultimately show ?thesis by auto
  next
    case False
    with Cons.prems have "t \<in> set ts" by simp
    from Cons.IH[OF this] show ?thesis by simp
  qed
qed

lemma flag_mark:
  "r' \<in> set (mark_notified k i rows) \<Longrightarrow>
     \<exists>r\<in>set rows. task_id r = task_id r' \<and> (\<forall>k'. flag k' r' = (if k' = k \<and> task_id r = i then Some True else flag k' r))"
  by (auto simp add: mark_notified_def)

lemma sent_flagged_remind:
  assumes "sent_flagged s"
  shows "sent_flagged (remind cfg env k t s)"
  unfolding sent_flagged_def
proof (intro ballI allI impI)
  fix e r k'
  assume e: "e \<in> set (trace (remind cfg env k t s))"
    and r: "r \<in> set (session (remind cfg env k t s))"
    and ok: "is_sent_ok k' (task_id r) e"
  show "flag k' r = Some True"
  proof (cases "notify_recipient cfg t \<noteq> [] \<and> EMAIL_USER cfg \<noteq> [] \<and> EMAIL_PASS cfg \<noteq> [] \<and> smtp_ok env (calls s)")
    case True
    with r have "r \<in> set (mark_notified k (task_id t) (session s))" by (simp add: session_remind)
    then obtain r0 where r0: "r0 \<in> set (session s)" "task_id r0 = task_id r"
      "\<forall>k'. flag k' r = (if k' = k \<and> task_id r0 = task_id t then Some True else flag k' r0)"
      using flag_mark by blast
    from e True ok have "e \<in> set (trace s) \<or> (k' = k \<and> task_id r = task_id t)"
      by (auto simp add: trace_remind)
    then show ?thesis
    proof
      assume "e \<in> set (trace s)"
      with assms r0 ok have "flag k' r0 = Some True" by (auto simp add: sent_flagged_def)
      with r0(3) show ?thesis by simp
    next
      assume "k' = k \<and> task_id r = task_id t"
      with r0 show ?thesis by simp
    qed
  next
    case False
    with r have r': "r \<in> set (session s)" by (simp add: session_remind)
    from e False ok have "e \<in> set (trace s)"
      by (auto simp add: trace_remind split: if_splits)
    with assms r' ok show ?thesis by (auto simp add: sent_flagged_def)
  qed
qed

lemma sent_flagged_loop:
  "sent_flagged s \<Longrightarrow> sent_flagged (send_reminders cfg env k ts s)"
  by (induction ts arbitrary: s) (simp_all add: sent_flagged_remind)

lemma sent_flagged_log:
  "sent_flagged s \<Longrightarrow> sent_flagged (s\<lparr>trace := trace s @ [Query_failed k]\<rparr>)"
  by (auto simp add: sent_flagged_def)

lemma sent_flagged_reminders_of:
  "sent_flagged s \<Longrightarrow> sent_flagged (reminders_of cfg env k s)"
  by (simp add: reminders_of_def query_due_def Let_def sent_flagged_loop sent_flagged_log)

lemma changes_sent_remind:
  assumes "changes_sent db s"
  shows "changes_sent db (remind cfg env k t s)"
proof (cases "notify_recipient cfg t \<noteq> [] \<and> EMAIL_USER cfg \<noteq> [] \<and> EMAIL_PASS cfg \<noteq> [] \<and> smtp_ok env (calls s)")
  case True
  then have tr: "trace (remind cfg env k t s) = trace s @
      [Send_email k (task_id t) (notify_recipient cfg t) (subject_of k t) (body_of cfg t) True,
       Socket_emit (title t) (str_datetime cfg (due_date t)) (when_of k) (emit_ok env (calls s))]"
    by (simp add: trace_remind)
  from True have se: "session (remind cfg env k t s) = map (\<lambda>r. if task_id r = task_id t then set_flag k r else r) (session s)"
    by (simp add: session_remind mark_notified_def)
  show ?thesis
    using assms unfolding changes_sent_def tr se list_all2_map2
    by (rule list_all2_mono) auto
next
  case False
  then have se: "session (remind cfg env k t s) = session s" by (auto simp add: session_remind)
  obtain evs where tr: "trace (remind cfg env k t s) = trace s @ evs" by (simp add: trace_remind)
  show ?thesis
    using assms unfolding changes_sent_def tr se
    by (rule list_all2_mono) auto
qed

lemma changes_sent_loop:
  "changes_sent db s \<Longrightarrow> changes_sent db (send_reminders cfg env k ts s)"
  by (induction ts arbitrary: s) (simp_all add: changes_sent_remind)

lemma changes_sent_log:
  "changes_sent db s \<Longrightarrow> changes_sent db (s\<lparr>trace := trace s @ [Query_failed k]\<rparr>)"
  unfolding changes_sent_def by simp

lemma changes_sent_reminders_of:
  "changes_sent db s \<Longrightarrow> changes_sent db (reminders_of cfg env k s)"
  by (simp add: reminders_of_def query_due_def Let_def changes_sent_loop changes_sent_log)

lemma no_log_events:
  "(Query_failed k' \<in> set (trace (reminders_of cfg env k s))) =
     (Query_failed k' \<in> set (trace s) \<or> (k' = k \<and> query_fails env k))"
  "(Commit_failed \<in> set (trace (reminders_of cfg env k s))) = (Commit_failed \<in> set (trace s))"
proof -
  obtain evs where t: "trace (reminders_of cfg env k s) =
      trace s @ (if query_fails env k then [Query_failed k] else []) @ evs"
    and b: "\<forall>e\<in>set evs. by_loop k e"
    using trace_reminders_of by blast
  from b have "Query_failed k' \<notin> set evs" "Commit_failed \<notin> set evs" by auto
  with t show "(Query_failed k' \<in> set (trace (reminders_of cfg env k s))) =
     (Query_failed k' \<in> set (trace s) \<or> (k' = k \<and> query_fails env k))"
    "(Commit_failed \<in> set (trace (reminders_of cfg env k s))) = (Commit_failed \<in> set (trace s))"
    by auto
qed

lemma view_eqD:
  assumes "view k r' = view k r"
  shows "task_id r' = task_id r" "title r' = title r" "description r' = description r"
    "due_date r' = due_date r" "status r' = status r" "notify_email r' = notify_email r"
    "flag k r' = flag k r" "notify_recipient cfg r' = notify_recipient cfg r"
    "subject_of k r' = subject_of k r" "body_of cfg r' = body_of cfg r"
    "due_filter k thr now r' = due_filter k thr now r" "send_for cfg k r' e = send_for cfg k r e"
proof -
  show a: "task_id r' = task_id r" "title r' = title r" "description r' = description r"
    "due_date r' = due_date r" "status r' = status r" "notify_email r' = notify_email r"
    "flag k r' = flag k r"
    using assms by (simp_all add: view_def)
  show b: "notify_recipient cfg r' = notify_recipient cfg r" "body_of cfg r' = body_of cfg r"
    "due_filter k thr now r' = due_filter k thr now r"
    using a by (simp_all add: notify_recipient_def body_of_def due_filter_def)
  show c: "subject_of k r' = subject_of k r" using a by (cases k) simp_all
  show "send_for cfg k r' e = send_for cfg k r e" using a b c by (cases e) simp_all
qed

lemma view_set_flag: "k' \<noteq> k \<Longrightarrow> view k' (set_flag k r) = view k' r"
  by (simp add: view_def)

lemma view_mark: "k' \<noteq> k \<Longrightarrow> map (view k') (mark_notified k i rows) = map (view k') rows"
  by (induction rows) (simp_all add: mark_notified_def view_set_flag)

lemma view_send_reminders:
  "k' \<noteq> k \<Longrightarrow> map (view k') (session (send_reminders cfg env k ts s)) = map (view k') (session s)"
  by (induction ts arbitrary: s) (simp_all add: session_remind view_mark)

lemma view_reminders_of:
  "k' \<noteq> k \<Longrightarrow> map (view k') (session (reminders_of cfg env k s)) = map (view k') (session s)"
  by (simp add: reminders_of_def query_due_def Let_def view_send_reminders)

lemma origin_remind:
  assumes "e \<in> set (trace (remind cfg env k t s))" and "is_send k' i e"
  shows "e \<in> set (trace s) \<or> (k' = k \<and> task_id t = i \<and> notify_recipient cfg t \<noteq> [] \<and> send_for cfg k t e)"
  using assms by (auto simp add: trace_remind split: if_splits)

lemma origin_loop:
  assumes "e \<in> set (trace (send_reminders cfg env k ts s))" and "is_send k' i e"
  shows "e \<in> set (trace s) \<or>
     (k' = k \<and> (\<exists>t\<in>set ts. task_id t = i \<and> notify_recipient cfg t \<noteq> [] \<and> send_for cfg k t e))"
  using assms
proof (induction ts arbitrary: s)
  case Nil
  then show ?case by simp
next
  case (Cons u ts)
  from Cons.prems have "e \<in> set (trace (send_reminders cfg env k ts (remind cfg env k u s)))" by simp
  from Cons.IH[OF this Cons.prems(2)]
  show ?case
  proof
    assume "e \<in> set (trace (remind cfg env k u s))"
    from origin_remind[OF this Cons.prems(2)] show ?thesis by auto
  next
    assume "k' = k \<and> (\<exists>t\<in>set ts. task_id t = i \<and> notify_recipient cfg t \<noteq> [] \<and> send_for cfg k t e)"
    then show ?thesis by auto
  qed
qed

lemma origin_block:
  assumes "e \<in> set (trace (reminders_of cfg env k s))" and "is_send k' i e"
  shows "e \<in> set (trace s) \<or>
     (k' = k \<and> \<not> query_fails env k \<and>
       (\<exists>t\<in>set (session s). task_id t = i \<and> due_filter k (threshold k (clock env)) (clock env) t \<and>
           notify_recipient cfg t \<noteq> [] \<and> send_for cfg k t e))"
proof (cases "query_fails env k")
  case True
  with assms show ?thesis by (auto simp add: reminders_of_def query_due_def)
next
  case False
  with assms(1) have "e \<in> set (trace (send_reminders cfg env k
      (filter (due_filter k (threshold k (clock env)) (clock env)) (session s)) s))"
    by (simp add: reminders_of_def query_due_def Let_def)
  from origin_loop[OF this assms(2)] False show ?thesis by auto
qed

lemma count_sends_block:
  "length (filter (is_send k' i) (trace (reminders_of cfg env k s))) =
   length (filter (is_send k' i) (trace s)) +
     (if k' = k \<and> \<not> query_fails env k
      then length (filter (\<lambda>t. task_id t = i \<and> notify_recipient cfg t \<noteq> [] \<and>
             due_filter k (threshold k (clock env)) (clock env) t) (session s))
      else 0)"
  by (auto simp add: reminders_of_def query_due_def Let_def count_sends_loop conj_commute conj_left_commute
      intro: arg_cong[where f=length] filter_cong)

lemma exists_block:
  assumes "t \<in> set (session s)" and "due_filter k (threshold k (clock env)) (clock env) t"
    and "notify_recipient cfg t \<noteq> []" and "\<not> query_fails env k"
  shows "\<exists>e\<in>set (trace (reminders_of cfg env k s)). send_for cfg k t e"
proof -
  from assms(1,2) have "t \<in> set (filter (due_filter k (threshold k (clock env)) (clock env)) (session s))"
    by simp
  from sent_event_loop[OF this assms(3), of k env s] assms(4)
  show ?thesis by (auto simp add: reminders_of_def query_due_def Let_def intro!: bexI)
qed

lemma trace_block_mono: "set (trace s) \<subseteq> set (trace (reminders_of cfg env k s))"
  using trace_reminders_of[of cfg env k s] by auto

lemma count_view_cong:
  assumes "map (view k) xs = map (view k) ys"
  shows "length (filter (\<lambda>t. task_id t = i \<and> notify_recipient cfg t \<noteq> [] \<and> due_filter k thr now t) xs) =
         length (filter (\<lambda>t. task_id t = i \<and> notify_recipient cfg t \<noteq> [] \<and> due_filter k thr now t) ys)"
proof -
  from assms have "length xs = length ys" by (rule map_eq_imp_length_eq)
  then show ?thesis using assms
  proof (induction xs ys rule: list_induct2)
    case Nil
    show ?case by simp
  next
    case (Cons x xs y ys)
    then have v: "view k x = view k y" by simp
    from Cons have "length (filter (\<lambda>t. task_id t = i \<and> notify_recipient cfg t \<noteq> [] \<and> due_filter k thr now t) xs) =
         length (filter (\<lambda>t. task_id t = i \<and> notify_recipient cfg t \<noteq> [] \<and> due_filter k thr now t) ys)" by simp
    then show ?case using view_eqD(1,8,11)[OF v] by simp
  qed
qed

lemma distinct_count_le_1:
  "distinct (map f xs) \<Longrightarrow> length (filter (\<lambda>x. f x = i \<and> P x) xs) \<le> 1"
proof (induction xs)
  case Nil
  show ?case by simp
next
  case (Cons x xs)
  show ?case
  proof (cases "f x = i")
    case True
    from Cons.prems have "f x \<notin> f ` set xs" by simp
    with True have "\<forall>y\<in>set xs. f y \<noteq> i" by (metis imageI)
    then have "filter (\<lambda>x. f x = i \<and> P x) xs = []" by (simp add: filter_empty_conv)
    then show ?thesis by simp
  next
    case False
    with Cons show ?thesis by simp
  qed
qed

lemma count_1_iff:
  assumes "distinct (map f xs)"
  shows "length (filter (\<lambda>x. f x = i \<and> P x) xs) = (if \<exists>x\<in>set xs. f x = i \<and> P x then 1 else 0)"
proof (cases "\<exists>x\<in>set xs. f x = i \<and> P x")
  case True
  then have "filter (\<lambda>x. f x = i \<and> P x) xs \<noteq> []" by (simp add: filter_empty_conv)
  then have "length (filter (\<lambda>x. f x = i \<and> P x) xs) \<noteq> 0" by simp
  with distinct_count_le_1[OF assms, of i P]
  have "length (filter (\<lambda>x. f x = i \<and> P x) xs) = 1" by linarith
  with True show ?thesis by simp
next
  case False
  then have "filter (\<lambda>x. f x = i \<and> P x) xs = []" by (simp add: filter_empty_conv)
  with False show ?thesis by simp
qed

section \<open>One run\<close>

lemma scan_alt:
  "staged (check_deadlines cfg env db) = session (final_state cfg env db)"
  "stored (check_deadlines cfg env db) = (if commit_fails env then db else session (final_state cfg env db))"
  "events (check_deadlines cfg env db) =
     trace (final_state cfg env db) @ (if commit_fails env then [Commit_failed] else [])"
  by (simp_all add: check_deadlines_def final_state_def Let_def)

lemma in_events_iff:
  "is_send k i e \<Longrightarrow>
     (e \<in> set (events (check_deadlines cfg env db))) = (e \<in> set (trace (final_state cfg env db)))"
  by (auto simp add: scan_alt)

lemma view_in_set:
  assumes "map (view k) xs = map (view k) ys" and "x \<in> set xs"
  shows "\<exists>y\<in>set ys. view k y = view k x"
proof -
  from assms(2) have "view k x \<in> set (map (view k) xs)" by simp
  with assms(1) have "view k x \<in> set (map (view k) ys)" by simp
  then show ?thesis by auto
qed

lemma view_day_block:
  "map (view Hour) (session (reminders_of cfg env Day \<lparr>session = db, calls = 0, trace = []\<rparr>)) =
   map (view Hour) db"
  by (simp add: view_reminders_of)

lemma scan_sends_count:
  assumes "distinct (map task_id db)"
  shows "length (filter (is_send k i) (events (check_deadlines cfg env db))) =
     (if \<not> query_fails env k \<and>
         (\<exists>t\<in>set db. task_id t = i \<and> notify_recipient cfg t \<noteq> [] \<and>
            due_filter k (threshold k (clock env)) (clock env) t)
      then 1 else 0)"
proof -
  let ?s0 = "\<lparr>session = db, calls = 0, trace = []\<rparr>"
  let ?s1 = "reminders_of cfg env Day ?s0"
  let ?P = "\<lambda>t. notify_recipient cfg t \<noteq> [] \<and> due_filter k (threshold k (clock env)) (clock env) t"
  have c: "length (filter (\<lambda>t. task_id t = i \<and> ?P t) db) =
      (if \<exists>t\<in>set db. task_id t = i \<and> ?P t then 1 else 0)"
    using assms by (rule count_1_iff)
  have h: "length (filter (\<lambda>t. task_id t = i \<and> notify_recipient cfg t \<noteq> [] \<and>
        due_filter Hour (threshold Hour (clock env)) (clock env) t) (session ?s1)) =
      length (filter (\<lambda>t. task_id t = i \<and> notify_recipient cfg t \<noteq> [] \<and>
        due_filter Hour (threshold Hour (clock env)) (clock env) t) db)"
    by (rule count_view_cong) (rule view_day_block)
  have "length (filter (is_send k i) (events (check_deadlines cfg env db))) =
      (if \<not> query_fails env k then length (filter (\<lambda>t. task_id t = i \<and> ?P t) db) else 0)"
  proof (cases k)
    case Day
    then show ?thesis by (simp add: scan_alt final_state_def count_sends_block)
  next
    case Hour
    then show ?thesis using h by (simp add: scan_alt final_state_def count_sends_block)
  qed
  with c show ?thesis by simp
qed

lemma scan_send_origin:
  assumes "e \<in> set (events (check_deadlines cfg env db))" and "is_send k i e"
  shows "\<not> query_fails env k \<and>
     (\<exists>t\<in>set db. task_id t = i \<and> due_filter k (threshold k (clock env)) (clock env) t \<and>
        notify_recipient cfg t \<noteq> [] \<and> send_for cfg k t e)"
proof -
  let ?s0 = "\<lparr>session = db, calls = 0, trace = []\<rparr>"
  let ?s1 = "reminders_of cfg env Day ?s0"
  from assms have "e \<in> set (trace (reminders_of cfg env Hour ?s1))"
    by (simp add: in_events_iff final_state_def)
  from origin_block[OF this assms(2)] show ?thesis
  proof
    assume "e \<in> set (trace ?s1)"
    from origin_block[OF this assms(2)] show ?thesis by auto
  next
    assume a: "k = Hour \<and> \<not> query_fails env Hour \<and>
       (\<exists>t\<in>set (session ?s1). task_id t = i \<and>
          due_filter Hour (threshold Hour (clock env)) (clock env) t \<and>
          notify_recipient cfg t \<noteq> [] \<and> send_for cfg Hour t e)"
    then obtain t1 where t1: "t1 \<in> set (session ?s1)" "task_id t1 = i"
      "due_filter Hour (threshold Hour (clock env)) (clock env) t1"
      "notify_recipient cfg t1 \<noteq> []" "send_for cfg Hour t1 e" by blast
    from view_in_set[OF view_day_block t1(1)] obtain t where
      t: "t \<in> set db" "view Hour t = view Hour t1" by blast
    from t1 view_eqD(1,8,11,12)[OF t(2)] have "task_id t = i \<and>
        due_filter Hour (threshold Hour (clock env)) (clock env) t \<and>
        notify_recipient cfg t \<noteq> [] \<and> send_for cfg Hour t e" by simp
    with a t(1) show ?thesis by blast
  qed
qed

lemma scan_send_exists:
  assumes "t \<in> set db" and "due_filter k (threshold k (clock env)) (clock env) t"
    and "notify_recipient cfg t \<noteq> []" and "\<not> query_fails env k"
  shows "\<exists>e\<in>set (events (check_deadlines cfg env db)). send_for cfg k t e"
proof -
  let ?s0 = "\<lparr>session = db, calls = 0, trace = []\<rparr>"
  let ?s1 = "reminders_of cfg env Day ?s0"
  have "\<exists>e\<in>set (trace (final_state cfg env db)). send_for cfg k t e"
  proof (cases k)
    case Day
    from assms have "\<exists>e\<in>set (trace ?s1). send_for cfg Day t e"
      unfolding Day by (intro exists_block) simp_all
    then show ?thesis using trace_block_mono[of ?s1 cfg env Hour]
      by (auto simp add: final_state_def Day)
  next
    case Hour
    have "map (view Hour) db = map (view Hour) (session ?s1)" by (simp add: view_day_block)
    from view_in_set[OF this assms(1)] obtain t1 where
      t1: "t1 \<in> set (session ?s1)" "view Hour t1 = view Hour t" by blast
    from assms view_eqD(8,11)[OF t1(2)] have
      "due_filter Hour (threshold Hour (clock env)) (clock env) t1" "notify_recipient cfg t1 \<noteq> []"
      "\<not> query_fails env Hour" by (simp_all add: Hour)
    from exists_block[OF t1(1) this] view_eqD(12)[OF t1(2)]
    show ?thesis by (simp add: final_state_def Hour)
  qed
  then show ?thesis by (auto simp add: scan_alt)
qed

lemma scan_flags:
  assumes "distinct (map task_id db)"
  shows "list_all2 (\<lambda>r r'. frame r r' \<and>
      (\<forall>k. flag k r' = (if \<exists>e\<in>set (events (check_deadlines cfg env db)). is_sent_ok k (task_id r) e
                        then Some True else flag k r)))
     db (staged (check_deadlines cfg env db))"
proof -
  let ?s0 = "\<lparr>session = db, calls = 0, trace = []\<rparr>"
  let ?s2 = "final_state cfg env db"
  have f: "list_all2 frame db (session ?s2)"
    using frame_scan[OF assms] by (simp add: final_state_def)
  have "sent_flagged ?s0" by (simp add: sent_flagged_def)
  then have sf: "sent_flagged ?s2"
    by (simp add: final_state_def sent_flagged_reminders_of)
  have "changes_sent db ?s0" by (simp add: changes_sent_def list_all2_refl)
  then have cs: "changes_sent db ?s2"
    by (simp add: final_state_def changes_sent_reminders_of)
  have ev: "\<And>k i. (\<exists>e\<in>set (events (check_deadlines cfg env db)). is_sent_ok k i e) =
      (\<exists>e\<in>set (trace ?s2). is_sent_ok k i e)"
    by (auto simp add: scan_alt)
  show ?thesis
    unfolding scan_alt(1) list_all2_conv_all_nth
  proof (intro conjI allI impI)
    show "length db = length (session ?s2)" using f by (rule list_all2_lengthD)
  next
    fix n assume n: "n < length db"
    with f show "frame (db ! n) (session ?s2 ! n)" by (simp add: list_all2_conv_all_nth)
  next
    fix n k assume n: "n < length db"
    from f have len: "length db = length (session ?s2)" by (rule list_all2_lengthD)
    from n f have fr: "frame (db ! n) (session ?s2 ! n)" by (simp add: list_all2_conv_all_nth)
    then have id: "task_id (session ?s2 ! n) = task_id (db ! n)" by (simp add: frame_def)
    from n len have mem: "session ?s2 ! n \<in> set (session ?s2)" by simp
    show "flag k (session ?s2 ! n) =
        (if \<exists>e\<in>set (events (check_deadlines cfg env db)). is_sent_ok k (task_id (db ! n)) e
         then Some True else flag k (db ! n))"
    proof (cases "\<exists>e\<in>set (trace ?s2). is_sent_ok k (task_id (db ! n)) e")
      case True
      with sf mem id have "flag k (session ?s2 ! n) = Some True"
        by (auto simp add: sent_flagged_def)
      with True show ?thesis by (simp add: ev)
    next
      case False
      from cs n have "flag k (session ?s2 ! n) \<noteq> flag k (db ! n) \<longrightarrow>
          (\<exists>e\<in>set (trace ?s2). is_sent_ok k (task_id (db ! n)) e)"
        by (simp add: changes_sent_def list_all2_conv_all_nth)
      with False show ?thesis by (auto simp add: ev)
    qed
  qed
qed

lemma list_all2_in_set:
  assumes "list_all2 P xs ys" and "x \<in> set xs"
  shows "\<exists>y\<in>set ys. P x y"
proof -
  from assms(2) obtain n where n: "n < length xs" "xs ! n = x" by (auto simp add: in_set_conv_nth)
  with assms(1) have "P x (ys ! n)" "n < length ys" by (auto simp add: list_all2_conv_all_nth)
  then show ?thesis by auto
qed

lemma is_sent_ok_is_send: "is_sent_ok k i e \<Longrightarrow> is_send k i e"
  by (cases e) simp_all

lemma send_for_cases:
  "send_for cfg k t e \<Longrightarrow>
     \<exists>sent. e = Send_email k (task_id t) (notify_recipient cfg t) (subject_of k t) (body_of cfg t) sent"
  by (cases e) simp_all

lemma filter_singleton:
  assumes "length (filter P xs) = 1" and "x \<in> set xs" and "P x"
  shows "filter P xs = [x]"
proof -
  from assms(1) obtain y where y: "filter P xs = [y]"
    by (cases "filter P xs") simp_all
  from assms(2,3) have "x \<in> set (filter P xs)" by simp
  with y show ?thesis by simp
qed

lemma scan_send_once:
  assumes "distinct (map task_id db)" and "t \<in> set db"
    and "due_filter k (threshold k (clock env)) (clock env) t"
    and "\<not> query_fails env k" and "notify_recipient cfg t \<noteq> []"
  shows "\<exists>sent. filter (is_send k (task_id t)) (events (check_deadlines cfg env db)) =
       [Send_email k (task_id t) (notify_recipient cfg t) (subject_of k t) (body_of cfg t) sent]"
proof -
  from scan_send_exists[OF assms(2,3,5,4)] obtain e where
    e: "e \<in> set (events (check_deadlines cfg env db))" "send_for cfg k t e" by blast
  from send_for_cases[OF e(2)] obtain sent where
    s: "e = Send_email k (task_id t) (notify_recipient cfg t) (subject_of k t) (body_of cfg t) sent"
    by blast
  then have i: "is_send k (task_id t) e" by simp
  have "length (filter (is_send k (task_id t)) (events (check_deadlines cfg env db))) = 1"
    using assms(2-5) by (subst scan_sends_count[OF assms(1)]) auto
  from filter_singleton[OF this e(1) i] s show ?thesis by blast
qed

lemma sent_ok_iff:
  assumes "filter (is_send k i) evs = [Send_email k i a b c sent]"
  shows "(\<exists>e\<in>set evs. is_sent_ok k i e) = sent"
proof
  assume "\<exists>e\<in>set evs. is_sent_ok k i e"
  then obtain e where e: "e \<in> set evs" "is_sent_ok k i e" by blast
  then have "e \<in> set (filter (is_send k i) evs)" by (simp add: is_sent_ok_is_send)
  with assms have "e = Send_email k i a b c sent" by simp
  with e(2) show sent by simp
next
  assume sent
  have "Send_email k i a b c sent \<in> set (filter (is_send k i) evs)" by (simp add: assms)
  then have "Send_email k i a b c sent \<in> set evs" by simp
  with \<open>sent\<close> show "\<exists>e\<in>set evs. is_sent_ok k i e" by (intro bexI[of _ "Send_email k i a b c sent"]) simp_all
qed

lemma frame_due_filter:
  "frame t u \<Longrightarrow> flag k u = Some False \<Longrightarrow> status t = Some ''Pending'' \<Longrightarrow>
     now < due_date t \<Longrightarrow> due_date t \<le> thr \<Longrightarrow> due_filter k thr now u"
  by (simp add: frame_def due_filter_def)

lemma by_loop_kind: "by_loop k e \<Longrightarrow> is_send k' i e \<Longrightarrow> k' = k"
  by (cases e) simp_all

lemma day_then_hour:
  "\<exists>A B. events (check_deadlines cfg env db) = A @ B \<and>
     (\<forall>e\<in>set A. \<not> is_send Hour i e) \<and> (\<forall>e\<in>set B. \<not> is_send Day i e)"
proof -
  let ?s0 = "\<lparr>session = db, calls = 0, trace = []\<rparr>"
  let ?s1 = "reminders_of cfg env Day ?s0"
  obtain e1 where e1: "trace ?s1 = trace ?s0 @ (if query_fails env Day then [Query_failed Day] else []) @ e1"
    "\<forall>e\<in>set e1. by_loop Day e"
    using trace_reminders_of[of cfg env Day ?s0] by blast
  obtain e2 where e2: "trace (reminders_of cfg env Hour ?s1) =
      trace ?s1 @ (if query_fails env Hour then [Query_failed Hour] else []) @ e2"
    "\<forall>e\<in>set e2. by_loop Hour e"
    using trace_reminders_of[of cfg env Hour ?s1] by blast
  let ?A = "trace ?s1"
  let ?B = "(if query_fails env Hour then [Query_failed Hour] else []) @ e2 @
      (if commit_fails env then [Commit_failed] else [])"
  have "events (check_deadlines cfg env db) = ?A @ ?B"
    using e2(1) by (simp add: scan_alt final_state_def)
  moreover have "\<forall>e\<in>set ?A. \<not> is_send Hour i e"
    using e1 by (auto dest: by_loop_kind)
  moreover have "\<forall>e\<in>set ?B. \<not> is_send Day i e"
    using e2(2) by (auto dest: by_loop_kind)
  ultimately show ?thesis by blast
qed

lemma sends_day_before_hour:
  "filter (\<lambda>e. is_send Day i e \<or> is_send Hour i e) (events (check_deadlines cfg env db)) =
   filter (is_send Day i) (events (check_deadlines cfg env db)) @
   filter (is_send Hour i) (events (check_deadlines cfg env db))"
proof -
  from day_then_hour[of cfg env db i] obtain A B where
    ab: "events (check_deadlines cfg env db) = A @ B"
      "\<forall>e\<in>set A. \<not> is_send Hour i e" "\<forall>e\<in>set B. \<not> is_send Day i e" by blast
  have a: "filter (\<lambda>e. is_send Day i e \<or> is_send Hour i e) A = filter (is_send Day i) A"
    "filter (is_send Hour i) A = []"
    using ab(2) by (auto simp add: filter_empty_conv intro: filter_cong)
  have b: "filter (\<lambda>e. is_send Day i e \<or> is_send Hour i e) B = filter (is_send Hour i) B"
    "filter (is_send Day i) B = []"
    using ab(3) by (auto simp add: filter_empty_conv intro: filter_cong)
  show ?thesis unfolding ab(1) by (simp add: a b)
qed

lemma frame_same_flags:
  "frame t t' \<Longrightarrow> flag Day t' = flag Day t \<Longrightarrow> flag Hour t' = flag Hour t \<Longrightarrow> t' = t"
  by (simp add: frame_def)

lemma scan_no_recipient:
  assumes "distinct (map task_id db)" and "t \<in> set db" and "notify_recipient cfg t = []"
  shows "(\<forall>e\<in>set (events (check_deadlines cfg env db)). \<forall>k. \<not> is_send k (task_id t) e) \<and>
         t \<in> set (staged (check_deadlines cfg env db)) \<and>
         t \<in> set (stored (check_deadlines cfg env db))"
proof -
  let ?R = "check_deadlines cfg env db"
  have no: "\<not> is_send k (task_id t) e" if e: "e \<in> set (events ?R)" for e k
  proof
    assume "is_send k (task_id t) e"
    from scan_send_origin[OF e this] obtain t0 where
      t0: "t0 \<in> set db" "task_id t0 = task_id t" "notify_recipient cfg t0 \<noteq> []" by blast
    from distinct_ids_unique[OF assms(1) t0(1) assms(2) t0(2)] t0(3) assms(3)
    show False by simp
  qed
  then have nok: "\<not> (\<exists>e\<in>set (events ?R). is_sent_ok k (task_id t) e)" for k
    by (auto dest: is_sent_ok_is_send)
  from list_all2_in_set[OF scan_flags[OF assms(1), of cfg env] assms(2)] obtain t' where
    t': "t' \<in> set (staged ?R)" "frame t t'"
      "\<forall>k. flag k t' = (if \<exists>e\<in>set (events ?R). is_sent_ok k (task_id t) e then Some True else flag k t)"
    by blast
  from t'(3) nok have "flag Day t' = flag Day t" "flag Hour t' = flag Hour t" by simp_all
  from frame_same_flags[OF t'(2) this] t'(1) have st: "t \<in> set (staged ?R)" by simp
  with assms(2) have "t \<in> set (stored ?R)" by (simp add: scan_alt)
  with no st show ?thesis by blast
qed

lemma distinct_stored:
  assumes "distinct (map task_id db)"
  shows "distinct (map task_id (stored (check_deadlines cfg env db)))"
  using assms frame_ids[OF frame_scan[OF assms, of cfg env]]
  by (simp add: scan_alt final_state_def)

lemma run_scans_no_recipient:
  assumes "distinct (map task_id db)" and "t \<in> set db" and "notify_recipient cfg t = []"
  shows "t \<in> set (fst (run_scans cfg envs db)) \<and>
         (\<forall>e\<in>set (snd (run_scans cfg envs db)). \<forall>k. \<not> is_send k (task_id t) e)"
  using assms(1,2)
proof (induction envs arbitrary: db)
  case Nil
  then show ?case by simp
next
  case (Cons env envs)
  let ?R = "check_deadlines cfg env db"
  from scan_no_recipient[OF Cons.prems assms(3), of env] have
    a: "\<forall>e\<in>set (events ?R). \<forall>k. \<not> is_send k (task_id t) e" and b: "t \<in> set (stored ?R)"
    by blast+
  from Cons.IH[OF distinct_stored[OF Cons.prems(1)] b] a
  show ?case by (auto simp add: Let_def split: prod.splits)
qed

lemma count_ok_le_sends:
  "length (filter (is_sent_ok k i) evs) \<le> length (filter (is_send k i) evs)"
  by (induction evs) (auto dest: is_sent_ok_is_send)

lemma scan_ok_le_1:
  assumes "distinct (map task_id db)"
  shows "length (filter (is_sent_ok k i) (events (check_deadlines cfg env db))) \<le> 1"
proof -
  have "length (filter (is_send k i) (events (check_deadlines cfg env db))) \<le> 1"
    by (simp add: scan_sends_count[OF assms])
  with count_ok_le_sends[of k i "events (check_deadlines cfg env db)"] show ?thesis by linarith
qed

lemma scan_ok_was_unflagged:
  assumes "e \<in> set (events (check_deadlines cfg env db))" and "is_sent_ok k i e"
  shows "\<exists>r\<in>set db. task_id r = i \<and> flag k r = Some False"
proof -
  from assms(2) have "is_send k i e" by (rule is_sent_ok_is_send)
  from scan_send_origin[OF assms(1) this] show ?thesis by (auto simp add: due_filter_def)
qed

lemma scan_ok_stored_flagged:
  assumes "e \<in> set (events (check_deadlines cfg env db))" and "is_sent_ok k i e"
    and "\<not> commit_fails env"
  shows "\<forall>r\<in>set (stored (check_deadlines cfg env db)). task_id r = i \<longrightarrow> flag k r = Some True"
proof -
  let ?s0 = "\<lparr>session = db, calls = 0, trace = []\<rparr>"
  have "sent_flagged ?s0" by (simp add: sent_flagged_def)
  then have sf: "sent_flagged (final_state cfg env db)"
    by (simp add: final_state_def sent_flagged_reminders_of)
  from assms have "e \<in> set (trace (final_state cfg env db))" by (simp add: scan_alt)
  with sf assms(2,3) show ?thesis by (auto simp add: sent_flagged_def scan_alt)
qed

lemma list_all2_in_set2:
  assumes "list_all2 P xs ys" and "y \<in> set ys"
  shows "\<exists>x\<in>set xs. P x y"
proof -
  from assms(2) obtain n where n: "n < length ys" "ys ! n = y" by (auto simp add: in_set_conv_nth)
  with assms(1) have "P (xs ! n) y" "n < length xs" by (auto simp add: list_all2_conv_all_nth)
  then show ?thesis by auto
qed

lemma scan_unflagged_was_unflagged:
  assumes "distinct (map task_id db)" and "r' \<in> set (stored (check_deadlines cfg env db))"
    and "task_id r' = i" and "flag k r' = Some False"
  shows "\<exists>r\<in>set db. task_id r = i \<and> flag k r = Some False"
proof -
  have "list_all2 frame db (stored (check_deadlines cfg env db))"
    using frame_scan[OF assms(1), of cfg env]
    by (simp add: scan_alt final_state_def list_all2_frame_refl)
  from list_all2_in_set2[OF this assms(2)] obtain r where r: "r \<in> set db" "frame r r'" by blast
  from frame_flag[OF r(2), of k] assms(4) have "flag k r = Some False" by auto
  moreover from r(2) assms(3) have "task_id r = i" by (simp add: frame_def)
  ultimately show ?thesis using r(1) by blast
qed

lemma snd_run_scans_Cons:
  "snd (run_scans cfg (env # envs) db) =
     events (check_deadlines cfg env db) @ snd (run_scans cfg envs (stored (check_deadlines cfg env db)))"
  by (simp add: Let_def split: prod.splits)

lemma run_scans_ok_bound:
  assumes "distinct (map task_id db)" and "\<forall>env\<in>set envs. \<not> commit_fails env"
  shows "length (filter (is_sent_ok k i) (snd (run_scans cfg envs db))) \<le>
     (if \<exists>r\<in>set db. task_id r = i \<and> flag k r = Some False then 1 else 0)"
  using assms
proof (induction envs arbitrary: db)
  case Nil
  show ?case by simp
next
  case (Cons env envs)
  let ?R = "check_deadlines cfg env db"
  let ?c1 = "length (filter (is_sent_ok k i) (events ?R))"
  let ?c2 = "length (filter (is_sent_ok k i) (snd (run_scans cfg envs (stored ?R))))"
  from Cons.prems have cf: "\<not> commit_fails env" and rest: "\<forall>env\<in>set envs. \<not> commit_fails env"
    by simp_all
  have ih: "?c2 \<le> (if \<exists>r\<in>set (stored ?R). task_id r = i \<and> flag k r = Some False then 1 else 0)"
    using Cons.IH[OF distinct_stored[OF Cons.prems(1)] rest] .
  have total: "length (filter (is_sent_ok k i) (snd (run_scans cfg (env # envs) db))) = ?c1 + ?c2"
    by (simp only: snd_run_scans_Cons filter_append length_append)
  show ?case
  proof (cases "\<exists>e\<in>set (events ?R). is_sent_ok k i e")
    case True
    then obtain e where e: "e \<in> set (events ?R)" "is_sent_ok k i e" by blast
    from scan_ok_stored_flagged[OF e cf]
    have "\<not> (\<exists>r\<in>set (stored ?R). task_id r = i \<and> flag k r = Some False)" by auto
    with ih have "?c2 = 0" by simp
    moreover have "?c1 \<le> 1" using Cons.prems(1) by (rule scan_ok_le_1)
    moreover from scan_ok_was_unflagged[OF e]
    have "\<exists>r\<in>set db. task_id r = i \<and> flag k r = Some False" .
    ultimately show ?thesis unfolding total by simp
  next
    case False
    then have "filter (is_sent_ok k i) (events ?R) = []" by (simp add: filter_empty_conv)
    then have c1: "?c1 = 0" by simp
    show ?thesis
    proof (cases "\<exists>r\<in>set (stored ?R). task_id r = i \<and> flag k r = Some False")
      case True
      then obtain r' where "r' \<in> set (stored ?R)" "task_id r' = i" "flag k r' = Some False" by blast
      from scan_unflagged_was_unflagged[OF Cons.prems(1) this]
      have "\<exists>r\<in>set db. task_id r = i \<and> flag k r = Some False" .
      moreover from ih have "?c2 \<le> 1" by (simp split: if_splits)
      ultimately show ?thesis using c1 unfolding total by simp
    next
      case False
      with ih c1 show ?thesis unfolding total by simp
    qed
  qed
qed

lemma handled_remind:
  "concat (map handled (trace (remind cfg env k t s))) =
     concat (map handled (trace s)) @ [task_id t]"
  by (simp add: trace_remind)

lemma handled_loop:
  "concat (map handled (trace (send_reminders cfg env k ts s))) =
     concat (map handled (trace s)) @ map task_id ts"
  by (induction ts arbitrary: s) (simp_all add: handled_remind)

lemma handled_block:
  "concat (map handled (trace (reminders_of cfg env k s))) =
     concat (map handled (trace s)) @
     (case query_due (query_fails env k) k (threshold k (clock env)) (clock env) (session s) of
        Inl e \<Rightarrow> []
      | Inr tasks \<Rightarrow> map task_id tasks)"
  by (simp add: reminders_of_def query_due_def Let_def handled_loop)

lemma ids_filter_view_cong:
  assumes "map (view k) xs = map (view k) ys"
  shows "map task_id (filter (due_filter k thr now) xs) =
         map task_id (filter (due_filter k thr now) ys)"
proof -
  from assms have "length xs = length ys" by (rule map_eq_imp_length_eq)
  then show ?thesis using assms
  proof (induction xs ys rule: list_induct2)
    case Nil
    show ?case by simp
  next
    case (Cons x xs y ys)
    then have v: "view k x = view k y" by simp
    from Cons have "map task_id (filter (due_filter k thr now) xs) =
        map task_id (filter (due_filter k thr now) ys)" by simp
    then show ?case using view_eqD(1,11)[OF v] by simp
  qed
qed

lemma handled_scan:
  "concat (map handled (events (check_deadlines cfg env db))) =
     (if query_day_fails env then []
      else map task_id (filter (due_filter Day (threshold Day (clock env)) (clock env)) db)) @
     (if query_hour_fails env then []
      else map task_id (filter (due_filter Hour (threshold Hour (clock env)) (clock env)) db))"
proof -
  let ?s0 = "\<lparr>session = db, calls = 0, trace = []\<rparr>"
  let ?s1 = "reminders_of cfg env Day ?s0"
  have h: "map task_id (filter (due_filter Hour (threshold Hour (clock env)) (clock env)) (session ?s1)) =
      map task_id (filter (due_filter Hour (threshold Hour (clock env)) (clock env)) db)"
    by (rule ids_filter_view_cong) (rule view_day_block)
  have "concat (map handled (trace (final_state cfg env db))) =
     (if query_day_fails env then []
      else map task_id (filter (due_filter Day (threshold Day (clock env)) (clock env)) db)) @
     (if query_hour_fails env then []
      else map task_id (filter (due_filter Hour (threshold Hour (clock env)) (clock env)) db))"
    using h by (simp add: final_state_def handled_block query_due_def)
  then show ?thesis by (simp add: scan_alt)
qed

lemma scan_send_recipient:
  assumes "e \<in> set (events (check_deadlines cfg env db))" and "is_send k i e"
  shows "\<exists>r\<in>set db. task_id r = i \<and> send_for cfg k r e"
  using scan_send_origin[OF assms] by blast

section \<open>Properties of the scan\<close>

text \<open>
  C10 (frame of the scan). With the primary key distinct over the rows, a run leaves every
  row in its place and changes nothing but the two flags, each of which either keeps its
  value or goes from false to true; this holds for the rows staged in the session and for
  the rows left in the store.
\<close>

theorem scan_frame:
  assumes "distinct (map task_id db)"
  shows "list_all2 frame db (staged (check_deadlines cfg env db)) \<and>
         list_all2 frame db (stored (check_deadlines cfg env db))"
  using frame_scan[OF assms, of cfg env]
  by (simp add: check_deadlines_def Let_def list_all2_frame_refl)

theorem scan_frame_witness:
  "distinct (map task_id [demo_task 1 (timedelta 0 0 50) (Some ''a@b''), demo_task 2 (timedelta 0 2 0) None]) \<and>
   list_all2 frame [demo_task 1 (timedelta 0 0 50) (Some ''a@b''), demo_task 2 (timedelta 0 2 0) None]
     (stored (check_deadlines demo_config (demo_env 0 False False False)
        [demo_task 1 (timedelta 0 0 50) (Some ''a@b''), demo_task 2 (timedelta 0 2 0) None])) \<and>
   stored (check_deadlines demo_config (demo_env 0 False False False)
        [demo_task 1 (timedelta 0 0 50) (Some ''a@b''), demo_task 2 (timedelta 0 2 0) None]) =
     [(demo_task 1 (timedelta 0 0 50) (Some ''a@b''))\<lparr>notified_1day := Some True, notified_1hour := Some True\<rparr>,
      demo_task 2 (timedelta 0 2 0) None]"
proof -
  have d: "distinct (map task_id [demo_task 1 (timedelta 0 0 50) (Some ''a@b''), demo_task 2 (timedelta 0 2 0) None])"
    by (simp add: demo_defs)
  have e: "stored (check_deadlines demo_config (demo_env 0 False False False)
        [demo_task 1 (timedelta 0 0 50) (Some ''a@b''), demo_task 2 (timedelta 0 2 0) None]) =
     [(demo_task 1 (timedelta 0 0 50) (Some ''a@b''))\<lparr>notified_1day := Some True, notified_1hour := Some True\<rparr>,
      demo_task 2 (timedelta 0 2 0) None]"
    by (simp add: demo_defs scan_defs)
  from scan_frame[OF d, of demo_config "demo_env 0 False False False"] d e show ?thesis by simp
qed

text \<open>
  C3 (query window). When it does not raise, the query of a kind returns exactly the rows
  with status Pending, a due date after now and not after now plus one day (day) or one
  hour (hour), and the flag of the kind false. A Pending task due in 23 hours whose day
  flag is false is returned by the day query and not by the hour query; one due in 30
  minutes is returned by each query whose flag is false; one due now or earlier is
  returned by neither.
\<close>

theorem query_window:
  "query_due False k (threshold k now) now rows =
     Inr (filter (\<lambda>t. status t = Some ''Pending'' \<and> now < due_date t \<and>
            due_date t \<le> now + (case k of Day \<Rightarrow> timedelta 0 24 0 | Hour \<Rightarrow> timedelta 0 1 0) \<and>
            flag k t = Some False) rows) \<and>
   (t \<in> set rows \<and> status t = Some ''Pending'' \<and> due_date t = now + timedelta 0 23 0 \<and>
      notified_1day t = Some False \<longrightarrow>
      selects Day now rows t \<and> \<not> selects Hour now rows t) \<and>
   (t \<in> set rows \<and> status t = Some ''Pending'' \<and> due_date t = now + timedelta 0 0 30 \<longrightarrow>
      selects Day now rows t = (notified_1day t = Some False) \<and>
      selects Hour now rows t = (notified_1hour t = Some False)) \<and>
   (due_date t \<le> now \<longrightarrow> \<not> selects Day now rows t \<and> \<not> selects Hour now rows t)"
proof -
  have "filter (due_filter k (threshold k now) now) rows =
      filter (\<lambda>t. status t = Some ''Pending'' \<and> now < due_date t \<and>
            due_date t \<le> now + (case k of Day \<Rightarrow> timedelta 0 24 0 | Hour \<Rightarrow> timedelta 0 1 0) \<and>
            flag k t = Some False) rows"
    by (rule filter_cong) (auto simp add: due_filter_def timedelta_def split: kind.splits)
  then show ?thesis
    by (auto simp add: query_due_def selects_def due_filter_def timedelta_def)
qed

theorem query_window_witness:
  "selects Day 0 [demo_task 1 (timedelta 0 23 0) None, demo_task 2 (timedelta 0 0 30) None,
       demo_task 3 0 None] (demo_task 1 (timedelta 0 23 0) None) \<and>
   \<not> selects Hour 0 [demo_task 1 (timedelta 0 23 0) None, demo_task 2 (timedelta 0 0 30) None,
       demo_task 3 0 None] (demo_task 1 (timedelta 0 23 0) None)"
  using query_window[of Day 0 "[demo_task 1 (timedelta 0 23 0) None, demo_task 2 (timedelta 0 0 30) None,
       demo_task 3 0 None]" "demo_task 1 (timedelta 0 23 0) None"]
  by (simp add: demo_defs)

text \<open>
  C2 (persistence of the staged flags), as the code has it. The flags staged by a run are
  persisted by the one commit that ends it: when the commit goes through, the store holds
  every staged row; when it raises, the session is rolled back and the store holds the
  rows it held before the run, so that no staged flag is kept.
\<close>

theorem commit_all_or_nothing:
  "stored (check_deadlines cfg env db) =
     (if commit_fails env then db else staged (check_deadlines cfg env db))"
  by (simp add: check_deadlines_def Let_def)

text \<open>
  The claim as stated fails: two tasks are reminded in one run, both sends succeed and
  both flags are staged; the commit raises, and the rollback discards the flag of each of
  the two tasks.
\<close>

theorem commit_failure_rolls_back_all:
  "staged (check_deadlines demo_config (demo_env 0 False False True)
      [demo_task 1 (timedelta 0 2 0) (Some ''a@b''), demo_task 2 (timedelta 0 3 0) (Some ''c@d'')]) =
     [(demo_task 1 (timedelta 0 2 0) (Some ''a@b''))\<lparr>notified_1day := Some True\<rparr>,
      (demo_task 2 (timedelta 0 3 0) (Some ''c@d''))\<lparr>notified_1day := Some True\<rparr>] \<and>
   stored (check_deadlines demo_config (demo_env 0 False False True)
      [demo_task 1 (timedelta 0 2 0) (Some ''a@b''), demo_task 2 (timedelta 0 3 0) (Some ''c@d'')]) =
     [demo_task 1 (timedelta 0 2 0) (Some ''a@b''), demo_task 2 (timedelta 0 3 0) (Some ''c@d'')]"
  by (simp add: demo_defs scan_defs)

text \<open>
  C8 (order of the listing), as the code has it. The query of a kind has no
  \<^verbatim>\<open>order_by\<close>: when it does not raise it returns the matching rows in the order
  in which the store lists them, a subsequence of the rows, and the empty list when no
  row matches. The loop of a kind handles the tasks its query returned one after the
  other in the order returned, so that a run handles the day tasks in the order of the
  store and then the hour tasks in the order of the store.
\<close>

theorem query_keeps_store_order:
  "(\<exists>tasks. query_due False k thr now rows = Inr tasks \<and> subseq tasks rows \<and>
     set tasks = {t \<in> set rows. due_filter k thr now t} \<and>
     ((\<exists>t\<in>set rows. due_filter k thr now t) \<or> tasks = [])) \<and>
   concat (map handled (trace (reminders_of cfg env k s))) =
     concat (map handled (trace s)) @
     (case query_due (query_fails env k) k (threshold k (clock env)) (clock env) (session s) of
        Inl e \<Rightarrow> []
      | Inr tasks \<Rightarrow> map task_id tasks) \<and>
   concat (map handled (events (check_deadlines cfg env db))) =
     (if query_day_fails env then []
      else map task_id (filter (due_filter Day (threshold Day (clock env)) (clock env)) db)) @
     (if query_hour_fails env then []
      else map task_id (filter (due_filter Hour (threshold Hour (clock env)) (clock env)) db))"
proof -
  have "\<exists>tasks. query_due False k thr now rows = Inr tasks \<and> subseq tasks rows \<and>
     set tasks = {t \<in> set rows. due_filter k thr now t} \<and>
     ((\<exists>t\<in>set rows. due_filter k thr now t) \<or> tasks = [])"
    by (auto simp add: query_due_def filter_empty_conv)
  with handled_block[of cfg env k s] handled_scan[of cfg env db] show ?thesis by blast
qed

text \<open>
  The claim as stated fails: the store lists a task due in two hours before a task due in
  one hour, and the day query returns them in that order, the later due date first.
\<close>

theorem query_not_sorted_by_due_date:
  "query_due False Day (threshold Day 0) 0
      [demo_task 1 (timedelta 0 2 0) None, demo_task 2 (timedelta 0 1 0) None] =
     Inr [demo_task 1 (timedelta 0 2 0) None, demo_task 2 (timedelta 0 1 0) None] \<and>
   \<not> sorted (map due_date [demo_task 1 (timedelta 0 2 0) None, demo_task 2 (timedelta 0 1 0) None])"
  by (simp add: demo_defs query_due_def due_filter_def timedelta_def)

text \<open>
  C5 (what a run returns), as the code has it. \<^verbatim>\<open>check_deadlines\<close> has no
  \<^verbatim>\<open>return\<close>: whatever the queries, the sends, the emits and the commit do, the run
  ends and returns \<^verbatim>\<open>None\<close>. A query that raises and a commit that raises are
  caught and reported by a printed message only: the message of a query is printed exactly
  when that query raised, and the message of the commit exactly when the commit raised.
\<close>

theorem scan_returns_none:
  "returned (check_deadlines cfg env db) = PyNone \<and>
   (Query_failed Day \<in> set (events (check_deadlines cfg env db))) = query_day_fails env \<and>
   (Query_failed Hour \<in> set (events (check_deadlines cfg env db))) = query_hour_fails env \<and>
   (Commit_failed \<in> set (events (check_deadlines cfg env db))) = commit_fails env"
  by (simp add: check_deadlines_def Let_def no_log_events)

text \<open>
  The claim as stated fails: a run that sends one day reminder and a run that sends none
  return the same value, so the value returned carries no count.
\<close>

theorem scan_return_has_no_counts:
  "returned (check_deadlines demo_config (demo_env 0 False False False)
      [demo_task 1 (timedelta 0 2 0) (Some ''a@b'')]) =
   returned (check_deadlines demo_config (demo_env 0 False False False) []) \<and>
   sent_count Day (events (check_deadlines demo_config (demo_env 0 False False False)
      [demo_task 1 (timedelta 0 2 0) (Some ''a@b'')])) = 1 \<and>
   sent_count Day (events (check_deadlines demo_config (demo_env 0 False False False) [])) = 0"
  by (simp add: demo_defs scan_defs sent_count_def)

text \<open>
  C4 (the flag is set exactly when the send succeeded). With the primary key distinct, let
  a task be returned by the query of a kind that does not raise, with a recipient. The
  run calls \<^verbatim>\<open>send_email\<close> for the task and the kind exactly once, and the flag
  staged for the task is the value that call returned: true when the send succeeded,
  still false when it failed. In the store after the run the flag is true exactly when the
  send succeeded and the commit went through. After a failed send the flag is false in the
  store, and the task is returned again by the query of that kind at every later reading of
  the clock that still has the due date in the window.
\<close>

theorem flag_set_iff_send_succeeded:
  assumes "distinct (map task_id db)" and "t \<in> set db"
    and "due_filter k (threshold k (clock env)) (clock env) t"
    and "\<not> query_fails env k" and "notify_recipient cfg t \<noteq> []"
  shows "\<exists>sent t' u.
     filter (is_send k (task_id t)) (events (check_deadlines cfg env db)) =
       [Send_email k (task_id t) (notify_recipient cfg t) (subject_of k t) (body_of cfg t) sent] \<and>
     t' \<in> set (staged (check_deadlines cfg env db)) \<and> frame t t' \<and> flag k t' = Some sent \<and>
     u \<in> set (stored (check_deadlines cfg env db)) \<and> frame t u \<and>
     flag k u = Some (sent \<and> \<not> commit_fails env) \<and>
     (\<not> sent \<longrightarrow> (\<forall>now'. now' < due_date t \<and> due_date t \<le> threshold k now' \<longrightarrow>
         selects k now' (stored (check_deadlines cfg env db)) u))"
proof -
  let ?R = "check_deadlines cfg env db"
  from scan_send_once[OF assms] obtain sent where
    one: "filter (is_send k (task_id t)) (events ?R) =
       [Send_email k (task_id t) (notify_recipient cfg t) (subject_of k t) (body_of cfg t) sent]"
    by blast
  from list_all2_in_set[OF scan_flags[OF assms(1), of cfg env] assms(2)] obtain t' where
    t': "t' \<in> set (staged ?R)" "frame t t'"
      "\<forall>k. flag k t' = (if \<exists>e\<in>set (events ?R). is_sent_ok k (task_id t) e then Some True else flag k t)"
    by blast
  from assms(3) have ft: "flag k t = Some False" "status t = Some ''Pending''"
    by (simp_all add: due_filter_def)
  from t'(3) sent_ok_iff[OF one] ft(1) have fl: "flag k t' = Some sent" by simp
  define u where "u = (if commit_fails env then t else t')"
  have u1: "u \<in> set (stored ?R)" using assms(2) t'(1) by (simp add: u_def scan_alt)
  have u2: "frame t u" using t'(2) by (simp add: u_def frame_refl)
  have u3: "flag k u = Some (sent \<and> \<not> commit_fails env)" using fl ft(1) by (simp add: u_def)
  have u4: "\<not> sent \<longrightarrow> (\<forall>now'. now' < due_date t \<and> due_date t \<le> threshold k now' \<longrightarrow>
         selects k now' (stored ?R) u)"
  proof (intro impI allI)
    fix now' assume "\<not> sent" and w: "now' < due_date t \<and> due_date t \<le> threshold k now'"
    with u3 have "flag k u = Some False" by simp
    from frame_due_filter[OF u2 this ft(2)] w have "due_filter k (threshold k now') now' u" by simp
    with u1 show "selects k now' (stored ?R) u" by (simp add: selects_def query_due_def)
  qed
  from one t'(1,2) fl u1 u2 u3 u4 show ?thesis by blast
qed

theorem flag_set_iff_send_succeeded_witness:
  "distinct (map task_id [demo_task 1 (timedelta 0 0 50) (Some ''a@b'')]) \<and>
   due_filter Hour (threshold Hour 0) 0 (demo_task 1 (timedelta 0 0 50) (Some ''a@b'')) \<and>
   notify_recipient demo_config (demo_task 1 (timedelta 0 0 50) (Some ''a@b'')) \<noteq> [] \<and>
   (\<exists>sent. filter (is_send Hour 1)
       (events (check_deadlines demo_config (demo_env 0 False False False)
          [demo_task 1 (timedelta 0 0 50) (Some ''a@b'')])) =
     [Send_email Hour 1 ''a@b'' (subject_of Hour (demo_task 1 (timedelta 0 0 50) (Some ''a@b'')))
        (body_of demo_config (demo_task 1 (timedelta 0 0 50) (Some ''a@b''))) sent])"
proof -
  let ?t = "demo_task 1 (timedelta 0 0 50) (Some ''a@b'')"
  let ?env = "demo_env 0 False False False"
  have h1: "distinct (map task_id [?t])" by simp
  have h2: "?t \<in> set [?t]" by simp
  have h3: "due_filter Hour (threshold Hour (clock ?env)) (clock ?env) ?t"
    by (simp add: demo_defs due_filter_def timedelta_def)
  have h4: "\<not> query_fails ?env Hour" by (simp add: demo_defs)
  have h5: "notify_recipient demo_config ?t \<noteq> []" by (simp add: demo_defs notify_recipient_def)
  have n: "notify_recipient demo_config ?t = ''a@b''" "task_id ?t = 1" "clock ?env = 0"
    by (simp_all add: demo_defs notify_recipient_def)
  from flag_set_iff_send_succeeded[OF h1 h2 h3 h4 h5] obtain sent where
    "filter (is_send Hour (task_id ?t)) (events (check_deadlines demo_config ?env [?t])) =
       [Send_email Hour (task_id ?t) (notify_recipient demo_config ?t) (subject_of Hour ?t)
          (body_of demo_config ?t) sent]" by blast
  then have "\<exists>sent. filter (is_send Hour 1) (events (check_deadlines demo_config ?env [?t])) =
     [Send_email Hour 1 ''a@b'' (subject_of Hour ?t) (body_of demo_config ?t) sent]"
    unfolding n by blast
  with h1 h3 h5 show ?thesis unfolding n by blast
qed

text \<open>
  C6 (both reminders in one run). With the primary key distinct, let a Pending task with
  both flags false and a recipient be due 50 minutes after the reading of the clock, let
  neither query raise, and let every call of \<^verbatim>\<open>send_email\<close> made for the task return
  true. Then the run makes exactly two such calls, the day reminder first and the hour
  reminder second, and the row staged for the task has both flags true; when the commit
  goes through, so has the row in the store.
\<close>

theorem both_reminders_in_one_scan:
  assumes "distinct (map task_id db)" and "t \<in> set db"
    and "status t = Some ''Pending''"
    and "notified_1day t = Some False" and "notified_1hour t = Some False"
    and "notify_recipient cfg t \<noteq> []"
    and "due_date t = clock env + timedelta 0 0 50"
    and "\<not> query_day_fails env" and "\<not> query_hour_fails env"
    and "\<forall>k. \<forall>e\<in>set (events (check_deadlines cfg env db)).
           is_send k (task_id t) e \<longrightarrow> is_sent_ok k (task_id t) e"
  shows "filter (\<lambda>e. is_send Day (task_id t) e \<or> is_send Hour (task_id t) e)
           (events (check_deadlines cfg env db)) =
         [Send_email Day (task_id t) (notify_recipient cfg t) (subject_of Day t) (body_of cfg t) True,
          Send_email Hour (task_id t) (notify_recipient cfg t) (subject_of Hour t) (body_of cfg t) True] \<and>
         (\<exists>t'\<in>set (staged (check_deadlines cfg env db)).
            frame t t' \<and> notified_1day t' = Some True \<and> notified_1hour t' = Some True) \<and>
         (\<not> commit_fails env \<longrightarrow>
            (\<exists>u\<in>set (stored (check_deadlines cfg env db)).
               frame t u \<and> notified_1day u = Some True \<and> notified_1hour u = Some True))"
proof -
  let ?R = "check_deadlines cfg env db"
  have one: "filter (is_send k (task_id t)) (events ?R) =
      [Send_email k (task_id t) (notify_recipient cfg t) (subject_of k t) (body_of cfg t) True]" for k
  proof -
    have d: "due_filter k (threshold k (clock env)) (clock env) t"
      using assms(3,4,5,7) by (cases k) (simp_all add: due_filter_def timedelta_def)
    have q: "\<not> query_fails env k" using assms(8,9) by (cases k) simp_all
    from scan_send_once[OF assms(1,2) d q assms(6)] obtain sent where
      s: "filter (is_send k (task_id t)) (events ?R) =
        [Send_email k (task_id t) (notify_recipient cfg t) (subject_of k t) (body_of cfg t) sent]"
      by blast
    then have "Send_email k (task_id t) (notify_recipient cfg t) (subject_of k t) (body_of cfg t) sent
        \<in> set (filter (is_send k (task_id t)) (events ?R))" by simp
    then have "Send_email k (task_id t) (notify_recipient cfg t) (subject_of k t) (body_of cfg t) sent
        \<in> set (events ?R)" by simp
    with assms(10) have "is_sent_ok k (task_id t)
        (Send_email k (task_id t) (notify_recipient cfg t) (subject_of k t) (body_of cfg t) sent)"
      by (metis is_send.simps(1))
    then have sent by simp
    with s show ?thesis by simp
  qed
  have order: "filter (\<lambda>e. is_send Day (task_id t) e \<or> is_send Hour (task_id t) e) (events ?R) =
      [Send_email Day (task_id t) (notify_recipient cfg t) (subject_of Day t) (body_of cfg t) True,
       Send_email Hour (task_id t) (notify_recipient cfg t) (subject_of Hour t) (body_of cfg t) True]"
    by (simp add: sends_day_before_hour one)
  from list_all2_in_set[OF scan_flags[OF assms(1), of cfg env] assms(2)] obtain t' where
    t': "t' \<in> set (staged ?R)" "frame t t'"
      "\<forall>k. flag k t' = (if \<exists>e\<in>set (events ?R). is_sent_ok k (task_id t) e then Some True else flag k t)"
    by blast
  have "flag k t' = Some True" for k
    using t'(3) sent_ok_iff[OF one[of k]] by simp
  from this[of Day] this[of Hour] have fl: "notified_1day t' = Some True" "notified_1hour t' = Some True"
    by simp_all
  with t'(1,2) have st: "\<exists>t'\<in>set (staged ?R). frame t t' \<and> notified_1day t' = Some True \<and>
      notified_1hour t' = Some True" by blast
  then have "\<not> commit_fails env \<longrightarrow> (\<exists>u\<in>set (stored ?R).
      frame t u \<and> notified_1day u = Some True \<and> notified_1hour u = Some True)"
    by (simp add: scan_alt)
  with order st show ?thesis by blast
qed

theorem both_reminders_in_one_scan_witness:
  "filter (\<lambda>e. is_send Day 1 e \<or> is_send Hour 1 e)
      (events (check_deadlines demo_config (demo_env 0 False False False)
         [demo_task 1 (timedelta 0 0 50) (Some ''a@b'')])) =
     [Send_email Day 1 ''a@b'' (subject_of Day (demo_task 1 (timedelta 0 0 50) (Some ''a@b'')))
        (body_of demo_config (demo_task 1 (timedelta 0 0 50) (Some ''a@b''))) True,
      Send_email Hour 1 ''a@b'' (subject_of Hour (demo_task 1 (timedelta 0 0 50) (Some ''a@b'')))
        (body_of demo_config (demo_task 1 (timedelta 0 0 50) (Some ''a@b''))) True] \<and>
   stored (check_deadlines demo_config (demo_env 0 False False False)
         [demo_task 1 (timedelta 0 0 50) (Some ''a@b'')]) =
     [(demo_task 1 (timedelta 0 0 50) (Some ''a@b''))\<lparr>notified_1day := Some True,
         notified_1hour := Some True\<rparr>]"
proof -
  let ?t = "demo_task 1 (timedelta 0 0 50) (Some ''a@b'')"
  let ?env = "demo_env 0 False False False"
  have h1: "distinct (map task_id [?t])" by simp
  have h2: "?t \<in> set [?t]" by simp
  have h3: "status ?t = Some ''Pending''" by (simp add: demo_defs)
  have h4: "notified_1day ?t = Some False" by (simp add: demo_defs)
  have h5: "notified_1hour ?t = Some False" by (simp add: demo_defs)
  have h6: "notify_recipient demo_config ?t \<noteq> []" by (simp add: demo_defs notify_recipient_def)
  have h7: "due_date ?t = clock ?env + timedelta 0 0 50" by (simp add: demo_defs)
  have h8: "\<not> query_day_fails ?env" by (simp add: demo_defs)
  have h9: "\<not> query_hour_fails ?env" by (simp add: demo_defs)
  have h10: "\<forall>k. \<forall>e\<in>set (events (check_deadlines demo_config ?env [?t])).
       is_send k (task_id ?t) e \<longrightarrow> is_sent_ok k (task_id ?t) e"
    by (simp add: demo_defs scan_defs)
  have n: "notify_recipient demo_config ?t = ''a@b''" "task_id ?t = 1"
    by (simp_all add: demo_defs notify_recipient_def)
  have st: "stored (check_deadlines demo_config ?env [?t]) =
     [?t\<lparr>notified_1day := Some True, notified_1hour := Some True\<rparr>]"
    by (simp add: demo_defs scan_defs)
  from both_reminders_in_one_scan[OF h1 h2 h3 h4 h5 h6 h7 h8 h9 h10] st
  show ?thesis unfolding n by blast
qed

text \<open>
  C7 (a task without recipient is skipped). For every task, the recipient is its
  \<^verbatim>\<open>notify_email\<close> when that is present and not empty, and the default recipient
  otherwise; every call of \<^verbatim>\<open>send_email\<close> a run makes is for a row of the store and
  addressed to the recipient of that row. With the primary key distinct, a task whose
  recipient is empty is left as it is by any number of runs, and no run calls
  \<^verbatim>\<open>send_email\<close> for it; a task without \<^verbatim>\<open>notify_email\<close> under an empty default
  recipient is such a task.
\<close>

theorem no_recipient_never_sent:
  "notify_recipient cfg u =
     (if notify_email u = None \<or> notify_email u = Some [] then DEFAULT_TO cfg
      else the (notify_email u)) \<and>
   (\<forall>e\<in>set (events (check_deadlines cfg env db)). \<forall>k i. is_send k i e \<longrightarrow>
      (\<exists>r\<in>set db. task_id r = i \<and> send_for cfg k r e)) \<and>
   (distinct (map task_id db) \<and> t \<in> set db \<and> notify_recipient cfg t = [] \<longrightarrow>
      t \<in> set (fst (run_scans cfg envs db)) \<and>
      (\<forall>e\<in>set (snd (run_scans cfg envs db)). \<forall>k. \<not> is_send k (task_id t) e)) \<and>
   (notify_email t = None \<and> DEFAULT_TO cfg = [] \<longrightarrow> notify_recipient cfg t = [])"
proof -
  have r: "notify_recipient cfg u =
     (if notify_email u = None \<or> notify_email u = Some [] then DEFAULT_TO cfg
      else the (notify_email u))"
    by (auto simp add: notify_recipient_def split: option.splits)
  have a: "\<forall>e\<in>set (events (check_deadlines cfg env db)). \<forall>k i. is_send k i e \<longrightarrow>
      (\<exists>r\<in>set db. task_id r = i \<and> send_for cfg k r e)"
    using scan_send_recipient by blast
  have n: "notify_email t = None \<and> DEFAULT_TO cfg = [] \<longrightarrow> notify_recipient cfg t = []"
    by (simp add: notify_recipient_def)
  from r a n run_scans_no_recipient[of db t cfg envs] show ?thesis by blast
qed

theorem no_recipient_never_sent_witness:
  "notify_recipient (demo_config\<lparr>DEFAULT_TO := ''d@e''\<rparr>)
      (demo_task 2 (timedelta 0 0 40) (Some ''a@b'')) = ''a@b'' \<and>
   notify_recipient (demo_config\<lparr>DEFAULT_TO := ''d@e''\<rparr>)
      (demo_task 1 (timedelta 0 0 50) None) = ''d@e'' \<and>
   distinct (map task_id [demo_task 1 (timedelta 0 0 50) None, demo_task 2 (timedelta 0 0 40) (Some ''a@b'')]) \<and>
   notify_recipient demo_config (demo_task 1 (timedelta 0 0 50) None) = [] \<and>
   demo_task 1 (timedelta 0 0 50) None \<in> set (fst (run_scans demo_config
      [demo_env 0 False False False, demo_env (timedelta 0 0 1) False False False]
      [demo_task 1 (timedelta 0 0 50) None, demo_task 2 (timedelta 0 0 40) (Some ''a@b'')])) \<and>
   snd (run_scans demo_config
      [demo_env 0 False False False, demo_env (timedelta 0 0 1) False False False]
      [demo_task 1 (timedelta 0 0 50) None, demo_task 2 (timedelta 0 0 40) (Some ''a@b'')]) =
     [No_recipient 1,
      Send_email Day 2 ''a@b'' (subject_of Day (demo_task 2 (timedelta 0 0 40) (Some ''a@b'')))
        (body_of demo_config (demo_task 2 (timedelta 0 0 40) (Some ''a@b''))) True,
      Socket_emit ''A'' ''t'' ''1 day'' True,
      No_recipient 1,
      Send_email Hour 2 ''a@b'' (subject_of Hour (demo_task 2 (timedelta 0 0 40) (Some ''a@b'')))
        (body_of demo_config (demo_task 2 (timedelta 0 0 40) (Some ''a@b''))) True,
      Socket_emit ''A'' ''t'' ''1 hour'' True,
      No_recipient 1, No_recipient 1]"
proof -
  let ?t = "demo_task 1 (timedelta 0 0 50) None"
  let ?u = "demo_task 2 (timedelta 0 0 40) (Some ''a@b'')"
  let ?db = "[?t, ?u]"
  let ?cfg = "demo_config\<lparr>DEFAULT_TO := ''d@e''\<rparr>"
  let ?envs = "[demo_env 0 False False False, demo_env (timedelta 0 0 1) False False False]"
  have u: "notify_email ?u = Some ''a@b''" "notify_email ?t = None" "DEFAULT_TO ?cfg = ''d@e''"
    by (simp_all add: demo_defs)
  from no_recipient_never_sent[of ?cfg ?u] have r1: "notify_recipient ?cfg ?u = ''a@b''"
    by (simp add: u)
  from no_recipient_never_sent[of ?cfg ?t] have r2: "notify_recipient ?cfg ?t = ''d@e''"
    by (simp add: u)
  have h1: "distinct (map task_id ?db)" by (simp add: demo_defs)
  have h2: "?t \<in> set ?db" by simp
  have h3: "notify_recipient demo_config ?t = []" by (simp add: demo_defs notify_recipient_def)
  have ev: "snd (run_scans demo_config ?envs ?db) =
     [No_recipient 1,
      Send_email Day 2 ''a@b'' (subject_of Day ?u) (body_of demo_config ?u) True,
      Socket_emit ''A'' ''t'' ''1 day'' True,
      No_recipient 1,
      Send_email Hour 2 ''a@b'' (subject_of Hour ?u) (body_of demo_config ?u) True,
      Socket_emit ''A'' ''t'' ''1 hour'' True,
      No_recipient 1, No_recipient 1]"
    by (simp add: demo_defs scan_defs)
  from no_recipient_never_sent[of demo_config _ _ ?db ?t ?envs] h1 h2 h3
  have "?t \<in> set (fst (run_scans demo_config ?envs ?db))" by blast
  with r1 r2 h1 h3 ev show ?thesis by blast
qed

text \<open>
  C9 (a failed query degrades its own kind only). When the query of a kind raises, the run
  prints the failure and goes on with an empty list for that kind: it calls
  \<^verbatim>\<open>send_email\<close> for no task of that kind and leaves the flag of that kind of every
  row as it was, in the session and in the store. The other kind is still served in the
  same run: with the primary key distinct, when the other query does not raise, each task
  it returns that has a recipient gets its one call of \<^verbatim>\<open>send_email\<close> and its flag
  staged with the value the call returned. The run ends and returns as usual.
\<close>

theorem query_failure_degrades:
  assumes "query_fails env k" and "distinct (map task_id db)"
  shows "Query_failed k \<in> set (events (check_deadlines cfg env db)) \<and>
         (\<forall>e\<in>set (events (check_deadlines cfg env db)). \<forall>i. \<not> is_send k i e) \<and>
         map (flag k) (staged (check_deadlines cfg env db)) = map (flag k) db \<and>
         map (flag k) (stored (check_deadlines cfg env db)) = map (flag k) db \<and>
         returned (check_deadlines cfg env db) = PyNone \<and>
         (\<forall>k' t. \<not> query_fails env k' \<and> t \<in> set db \<and>
              due_filter k' (threshold k' (clock env)) (clock env) t \<and>
              notify_recipient cfg t \<noteq> [] \<longrightarrow>
            (\<exists>sent t'. filter (is_send k' (task_id t)) (events (check_deadlines cfg env db)) =
               [Send_email k' (task_id t) (notify_recipient cfg t) (subject_of k' t) (body_of cfg t) sent] \<and>
               t' \<in> set (staged (check_deadlines cfg env db)) \<and> frame t t' \<and> flag k' t' = Some sent))"
proof -
  let ?R = "check_deadlines cfg env db"
  let ?s0 = "\<lparr>session = db, calls = 0, trace = []\<rparr>"
  have a: "Query_failed k \<in> set (events ?R)"
    using assms(1) by (cases k) (simp_all add: scan_alt final_state_def no_log_events)
  have b: "\<forall>e\<in>set (events ?R). \<forall>i. \<not> is_send k i e"
    using scan_send_origin[of _ cfg env db k] assms(1) by blast
  have blk: "session (reminders_of cfg env k s) = session s" for s
    using assms(1) by (simp add: reminders_of_def query_due_def)
  have "map (view k) (session (final_state cfg env db)) = map (view k) db"
  proof (cases k)
    case Day
    with blk have "session (reminders_of cfg env Day ?s0) = session ?s0" by simp
    with Day show ?thesis by (simp add: final_state_def view_reminders_of)
  next
    case Hour
    with blk have "session (reminders_of cfg env Hour (reminders_of cfg env Day ?s0)) =
        session (reminders_of cfg env Day ?s0)" by simp
    with Hour show ?thesis by (simp add: final_state_def view_reminders_of)
  qed
  then have "map (\<lambda>r. snd (snd (snd (snd (snd (snd (view k r))))))) (session (final_state cfg env db)) =
      map (\<lambda>r. snd (snd (snd (snd (snd (snd (view k r))))))) db"
    by (simp only: map_map[symmetric, unfolded comp_def, of "\<lambda>v. snd (snd (snd (snd (snd (snd v)))))" "view k"])
  then have c: "map (flag k) (session (final_state cfg env db)) = map (flag k) db"
    by (simp add: view_def)
  have d: "returned ?R = PyNone" by (simp add: check_deadlines_def Let_def)
  have e: "\<exists>sent t'. filter (is_send k' (task_id t)) (events ?R) =
               [Send_email k' (task_id t) (notify_recipient cfg t) (subject_of k' t) (body_of cfg t) sent] \<and>
               t' \<in> set (staged ?R) \<and> frame t t' \<and> flag k' t' = Some sent"
    if h: "\<not> query_fails env k'" "t \<in> set db"
      "due_filter k' (threshold k' (clock env)) (clock env) t" "notify_recipient cfg t \<noteq> []"
    for k' t
  proof -
    from scan_send_once[OF assms(2) h(2,3,1,4)] obtain sent where
      one: "filter (is_send k' (task_id t)) (events ?R) =
        [Send_email k' (task_id t) (notify_recipient cfg t) (subject_of k' t) (body_of cfg t) sent]"
      by blast
    from list_all2_in_set[OF scan_flags[OF assms(2), of cfg env] h(2)] obtain t' where
      t': "t' \<in> set (staged ?R)" "frame t t'"
        "\<forall>k. flag k t' = (if \<exists>e\<in>set (events ?R). is_sent_ok k (task_id t) e then Some True else flag k t)"
      by blast
    from h(3) have "flag k' t = Some False" by (simp add: due_filter_def)
    with t'(3) sent_ok_iff[OF one] have "flag k' t' = Some sent" by simp
    with one t'(1,2) show ?thesis by blast
  qed
  from a b c d e show ?thesis by (simp add: scan_alt)
qed

theorem query_failure_degrades_witness:
  "query_fails (demo_env 0 True False False) Day \<and>
   events (check_deadlines demo_config (demo_env 0 True False False)
      [demo_task 1 (timedelta 0 0 50) (Some ''a@b'')]) =
     [Query_failed Day,
      Send_email Hour 1 ''a@b'' (subject_of Hour (demo_task 1 (timedelta 0 0 50) (Some ''a@b'')))
        (body_of demo_config (demo_task 1 (timedelta 0 0 50) (Some ''a@b''))) True,
      Socket_emit ''A'' ''t'' ''1 hour'' True] \<and>
   map (flag Day) (stored (check_deadlines demo_config (demo_env 0 True False False)
      [demo_task 1 (timedelta 0 0 50) (Some ''a@b'')])) = [Some False] \<and>
   map (flag Hour) (stored (check_deadlines demo_config (demo_env 0 True False False)
      [demo_task 1 (timedelta 0 0 50) (Some ''a@b'')])) = [Some True]"
proof -
  let ?t = "demo_task 1 (timedelta 0 0 50) (Some ''a@b'')"
  let ?env = "demo_env 0 True False False"
  have h1: "query_fails ?env Day" by (simp add: demo_defs)
  have h2: "distinct (map task_id [?t])" by simp
  have ev: "events (check_deadlines demo_config ?env [?t]) =
     [Query_failed Day,
      Send_email Hour 1 ''a@b'' (subject_of Hour ?t) (body_of demo_config ?t) True,
      Socket_emit ''A'' ''t'' ''1 hour'' True]"
    by (simp add: demo_defs scan_defs)
  have fl: "map (flag Hour) (stored (check_deadlines demo_config ?env [?t])) = [Some True]"
    by (simp add: demo_defs scan_defs)
  have "map (flag Day) [?t] = [Some False]" by (simp add: demo_defs)
  with query_failure_degrades[OF h1 h2, of demo_config] h1 ev fl show ?thesis by simp
qed

text \<open>
  C1 (at most once on the success path). With the primary key distinct, over any sequence
  of runs whose clock readings do not decrease and whose commits all go through, each run
  starting from the store the previous one left, at most one call of \<^verbatim>\<open>send_email\<close>
  for a given task and a given kind returns true: the successful call sets the flag, the
  commit stores it, and the queries of the later runs leave the flagged task out.
\<close>

theorem at_most_once_on_success:
  assumes "distinct (map task_id db)"
    and "sorted (map clock envs)"
    and "\<forall>env\<in>set envs. \<not> commit_fails env"
  shows "length (filter (is_sent_ok k i) (snd (run_scans cfg envs db))) \<le> 1"
proof -
  have "length (filter (is_sent_ok k i) (snd (run_scans cfg envs db))) \<le>
     (if \<exists>r\<in>set db. task_id r = i \<and> flag k r = Some False then 1 else 0)"
    using assms(1,3) by (rule run_scans_ok_bound)
  also have "\<dots> \<le> 1" by simp
  finally show ?thesis .
qed

theorem at_most_once_on_success_witness:
  "distinct (map task_id [demo_task 1 (timedelta 0 0 50) (Some ''a@b'')]) \<and>
   sorted (map clock [demo_env 0 False False False, demo_env (timedelta 0 0 1) False False False]) \<and>
   length (filter (is_sent_ok Hour 1) (snd (run_scans demo_config
      [demo_env 0 False False False, demo_env (timedelta 0 0 1) False False False]
      [demo_task 1 (timedelta 0 0 50) (Some ''a@b'')]))) = 1"
proof -
  let ?db = "[demo_task 1 (timedelta 0 0 50) (Some ''a@b'')]"
  let ?envs = "[demo_env 0 False False False, demo_env (timedelta 0 0 1) False False False]"
  have h1: "distinct (map task_id ?db)" by simp
  have h2: "sorted (map clock ?envs)" by (simp add: demo_defs timedelta_def)
  have h3: "\<forall>env\<in>set ?envs. \<not> commit_fails env" by (simp add: demo_defs)
  have ge: "1 \<le> length (filter (is_sent_ok Hour 1) (snd (run_scans demo_config ?envs ?db)))"
    by (simp add: demo_defs scan_defs)
  from at_most_once_on_success[OF h1 h2 h3, of Hour 1 demo_config] ge
  have "length (filter (is_sent_ok Hour 1) (snd (run_scans demo_config ?envs ?db))) = 1"
    by linarith
  with h1 h2 show ?thesis by blast
qed

end
